theory Spec2Isabelle
  imports Main
begin

section \<open>The tracker and its trackables (tracker.hpp)\<close>

text \<open>
  One instantiation \<open>tracker<Derived, Tracked_T, Container_T>\<close> of the class template is
  modelled. Objects live in an explicit store: a \<open>trackable\<close> and a \<open>tracker\<close> are each
  identified by their address, a pointer is an \<open>addr option\<close> with \<open>None\<close> for
  \<open>nullptr\<close>, and an address outside the domain of its store is an object that does not
  exist (never constructed, or destroyed). The payload type \<open>Tracked_T\<close> is the type
  variable \<open>'a\<close>.
\<close>

type_synonym addr = nat

text \<open>
  \<open>class trackable : public tracked_type\<close> with its private data member. The members
  \<open>tracker_\<close> and \<open>tracked_objects_\<close> of the source are written \<open>tracker_m\<close> and
  \<open>tracked_objects_m\<close>: a name cannot end in an underscore here.
\<close>

record 'a trackable =
  payload :: 'a
  tracker_m :: "addr option"

text \<open>
  \<open>Container_T\<close>: the default \<open>std::vector<Tracked_T *>\<close>, or the \<open>std::set\<close> of the
  tests. Either is modelled by the sequence of its elements in iteration order; a set
  iterates in ascending order of the pointers.
\<close>

datatype container = Std_vector | Std_set

record tracker =
  tracked_objects_m :: "addr list"

text \<open>
  The three member functions that \<open>Derived\<close> must define. \<open>STATIC_DISPATCH\<close> calls one of
  them; what the callee can observe at that moment is the store, so a call is recorded
  together with the store it sees.
\<close>

datatype hook = Did_make | Did_attach | Did_detach

record 'a call =
  hook :: hook
  receiver :: addr
  argument :: addr
  objs_seen :: "addr \<rightharpoonup> 'a trackable"
  trks_seen :: "addr \<rightharpoonup> tracker"

text \<open>Which member function was called, on which tracker, for which trackable.\<close>

definition notified :: "'a call \<Rightarrow> hook \<times> addr \<times> addr" where
  "notified c = (hook c, receiver c, argument c)"

record 'a world =
  objs :: "addr \<rightharpoonup> 'a trackable"
  trks :: "addr \<rightharpoonup> tracker"
  container_t :: container
  calls :: "'a call list"

text \<open>
  A failed \<open>assert\<close> aborts the program. Using a pointer to an object that does not exist,
  or constructing an object where one already is, has no meaning in the language; the model
  stops with \<open>Invalid_pointer\<close>. A construction that no constructor of \<open>trackable\<close> accepts
  does not compile; the model reports it as \<open>No_matching_constructor\<close>.
\<close>

datatype failure = Assertion_failed | Invalid_pointer | No_matching_constructor

definition static_dispatch :: "hook \<Rightarrow> addr \<Rightarrow> addr \<Rightarrow> 'a world \<Rightarrow> 'a world" where
  "static_dispatch h this a s =
     s\<lparr>calls := calls s @
        [\<lparr>hook = h, receiver = this, argument = a, objs_seen = objs s, trks_seen = trks s\<rparr>]\<rparr>"

text \<open>
  The world as the callee of a recorded call finds it when it queries trackers and
  trackables from inside the call.
\<close>

definition world_seen :: "'a world \<Rightarrow> 'a call \<Rightarrow> 'a world" where
  "world_seen s c = s\<lparr>objs := objs_seen c, trks := trks_seen c\<rparr>"

subsection \<open>The container operations the tracker uses (find.hpp)\<close>

text \<open>
  \<open>tracked_objects_.insert(std::end(tracked_objects_), p)\<close>: a vector inserts before the
  end iterator; a set takes the iterator as a hint and inserts the key, in order, unless
  it is already present.
\<close>

fun insert_end :: "container \<Rightarrow> addr list \<Rightarrow> addr \<Rightarrow> addr list" where
  "insert_end Std_vector xs a = xs @ [a]"
| "insert_end Std_set xs a = (if a \<in> set xs then xs else insort a xs)"

text \<open>
  \<open>wade::find\<close>: the position of the first element equal to the value, \<open>None\<close> for the end
  iterator. \<open>std::find\<close> scans a vector; the member \<open>find\<close> of a set returns the position of
  the one equal key, which is the same position in the sequence.
\<close>

fun find_impl :: "addr list \<Rightarrow> addr \<Rightarrow> nat option" where
  "find_impl [] a = None"
| "find_impl (x # xs) a = (if x = a then Some 0 else map_option Suc (find_impl xs a))"

definition erase :: "addr list \<Rightarrow> nat \<Rightarrow> addr list" where
  "erase xs i = take i xs @ drop (Suc i) xs"

subsection \<open>Queries\<close>

definition my_tracker :: "'a trackable \<Rightarrow> addr option" where
  "my_tracker ob = tracker_m ob"

definition trackable_is_attached :: "'a trackable \<Rightarrow> bool" where
  "trackable_is_attached ob \<longleftrightarrow> my_tracker ob \<noteq> None"

definition trackable_is_detached :: "'a trackable \<Rightarrow> bool" where
  "trackable_is_detached ob \<longleftrightarrow> \<not> trackable_is_attached ob"

text \<open>
  \<open>tracker::is_attached(trackable const *)\<close>:
  \<open>a_trackable and (a_trackable->tracker_ == this)\<close>. A pointer to an object that does not
  exist is reported as not attached.
\<close>

definition is_attached :: "'a world \<Rightarrow> addr \<Rightarrow> addr option \<Rightarrow> bool" where
  "is_attached s this p =
     (case p of None \<Rightarrow> False
      | Some a \<Rightarrow> (case objs s a of None \<Rightarrow> False | Some ob \<Rightarrow> tracker_m ob = Some this))"

definition is_detached :: "'a world \<Rightarrow> addr \<Rightarrow> addr option \<Rightarrow> bool" where
  "is_detached s this p \<longleftrightarrow> \<not> is_attached s this p"

definition tracked_objects :: "'a world \<Rightarrow> addr \<Rightarrow> addr list" where
  "tracked_objects s this = (case trks s this of None \<Rightarrow> [] | Some tk \<Rightarrow> tracked_objects_m tk)"

subsection \<open>connect and disconnect\<close>

definition connect :: "addr \<Rightarrow> addr option \<Rightarrow> 'a world \<Rightarrow> failure + 'a world" where
  "connect this p s =
     (case p of None \<Rightarrow> Inl Assertion_failed
      | Some a \<Rightarrow>
          (case objs s a of None \<Rightarrow> Inl Invalid_pointer
           | Some ob \<Rightarrow>
               if tracker_m ob = Some this then Inl Assertion_failed
               else (case trks s this of None \<Rightarrow> Inl Invalid_pointer
                     | Some tk \<Rightarrow>
                         Inr (s\<lparr>objs := (objs s)(a \<mapsto> ob\<lparr>tracker_m := Some this\<rparr>),
                                trks := (trks s)(this \<mapsto> tk\<lparr>tracked_objects_m :=
                                   insert_end (container_t s) (tracked_objects_m tk) a\<rparr>)\<rparr>))))"

definition disconnect :: "addr \<Rightarrow> addr option \<Rightarrow> 'a world \<Rightarrow> failure + 'a world" where
  "disconnect this p s =
     (case p of None \<Rightarrow> Inl Assertion_failed
      | Some a \<Rightarrow>
          (case objs s a of None \<Rightarrow> Inl Invalid_pointer
           | Some ob \<Rightarrow>
               if tracker_m ob \<noteq> Some this then Inl Assertion_failed
               else (case trks s this of None \<Rightarrow> Inl Invalid_pointer
                     | Some tk \<Rightarrow>
                         (case find_impl (tracked_objects_m tk) a of
                            None \<Rightarrow> Inl Assertion_failed
                          | Some iter \<Rightarrow>
                              Inr (s\<lparr>objs := (objs s)(a \<mapsto> ob\<lparr>tracker_m := None\<rparr>),
                                     trks := (trks s)(this \<mapsto> tk\<lparr>tracked_objects_m :=
                                        erase (tracked_objects_m tk) iter\<rparr>)\<rparr>)))))"

subsection \<open>detach and attach\<close>

text \<open>\<open>tracker::detach(trackable *)\<close>.\<close>

definition detach :: "addr \<Rightarrow> addr option \<Rightarrow> 'a world \<Rightarrow> failure + bool \<times> 'a world" where
  "detach this p s =
     (if is_detached s this p then Inr (False, s)
      else (case disconnect this p s of Inl e \<Rightarrow> Inl e
            | Inr s1 \<Rightarrow>
                (case p of None \<Rightarrow> Inl Invalid_pointer
                 | Some a \<Rightarrow> Inr (True, static_dispatch Did_detach this a s1))))"

text \<open>\<open>trackable::detach()\<close>, called on the object at address \<open>a\<close>.\<close>

definition trackable_detach :: "addr \<Rightarrow> 'a world \<Rightarrow> failure + bool \<times> 'a world" where
  "trackable_detach a s =
     (case objs s a of None \<Rightarrow> Inl Invalid_pointer
      | Some ob \<Rightarrow>
          (case my_tracker ob of None \<Rightarrow> Inr (False, s)
           | Some t \<Rightarrow>
               (case detach t (Some a) s of Inl e \<Rightarrow> Inl e
                | Inr (success, s1) \<Rightarrow>
                    if \<not> success then Inl Assertion_failed
                    else (case objs s1 a of None \<Rightarrow> Inl Invalid_pointer
                          | Some ob1 \<Rightarrow>
                              if \<not> trackable_is_detached ob1 then Inl Assertion_failed
                              else Inr (success, s1)))))"

text \<open>\<open>tracker::attach(trackable *)\<close>.\<close>

definition attach :: "addr \<Rightarrow> addr option \<Rightarrow> 'a world \<Rightarrow> failure + bool \<times> 'a world" where
  "attach this p s =
     (case p of None \<Rightarrow> Inr (False, s)
      | Some a \<Rightarrow>
          if is_attached s this p then Inr (False, s)
          else (case trackable_detach a s of Inl e \<Rightarrow> Inl e
                | Inr (_, s1) \<Rightarrow>
                    (case connect this p s1 of Inl e \<Rightarrow> Inl e
                     | Inr s2 \<Rightarrow> Inr (True, static_dispatch Did_attach this a s2))))"

subsection \<open>detach_all\<close>

text \<open>
  The body of the range-based loop of \<open>detach_all\<close>, run over the elements in iteration
  order: the member's \<open>tracker_\<close> is set to \<open>nullptr\<close>, then \<open>did_detach\<close> is called. The
  container is not touched inside the loop.
\<close>

fun detach_all_loop :: "addr \<Rightarrow> addr list \<Rightarrow> 'a world \<Rightarrow> failure + 'a world" where
  "detach_all_loop this [] s = Inr s"
| "detach_all_loop this (a # as) s =
     (case objs s a of None \<Rightarrow> Inl Invalid_pointer
      | Some ob \<Rightarrow>
          detach_all_loop this as
            (static_dispatch Did_detach this a
               (s\<lparr>objs := (objs s)(a \<mapsto> ob\<lparr>tracker_m := None\<rparr>)\<rparr>)))"

definition detach_all :: "addr \<Rightarrow> 'a world \<Rightarrow> failure + 'a world" where
  "detach_all this s =
     (case trks s this of None \<Rightarrow> Inl Invalid_pointer
      | Some tk \<Rightarrow>
          (case detach_all_loop this (tracked_objects_m tk) s of Inl e \<Rightarrow> Inl e
           | Inr s1 \<Rightarrow> Inr (s1\<lparr>trks := (trks s1)(this \<mapsto> tk\<lparr>tracked_objects_m := []\<rparr>)\<rparr>)))"

subsection \<open>Construction, assignment and destruction of a trackable\<close>

text \<open>
  \<open>trackable() = default\<close>, for an object placed at the address \<open>this\<close>: \<open>v\<close> is the value
  of the default-constructed payload, and \<open>tracker_\<close> takes its default member initialiser.
\<close>

definition trackable_ctor :: "addr \<Rightarrow> 'a \<Rightarrow> 'a world \<Rightarrow> failure + 'a world" where
  "trackable_ctor this v s =
     (if this \<in> dom (objs s) then Inl Invalid_pointer
      else Inr (s\<lparr>objs := (objs s)(this \<mapsto> \<lparr>payload = v, tracker_m = None\<rparr>)\<rparr>))"

text \<open>\<open>trackable(trackable const & rhs)\<close>.\<close>

definition trackable_copy_ctor :: "addr \<Rightarrow> addr \<Rightarrow> 'a world \<Rightarrow> failure + 'a world" where
  "trackable_copy_ctor this rhs s =
     (if this \<in> dom (objs s) then Inl Invalid_pointer
      else (case objs s rhs of None \<Rightarrow> Inl Invalid_pointer
            | Some r \<Rightarrow>
                (let s1 = s\<lparr>objs := (objs s)(this \<mapsto> \<lparr>payload = payload r, tracker_m = None\<rparr>)\<rparr>
                 in case tracker_m r of None \<Rightarrow> Inr s1
                    | Some t \<Rightarrow>
                        (case attach t (Some this) s1 of Inl e \<Rightarrow> Inl e
                         | Inr (_, s2) \<Rightarrow> Inr s2))))"

text \<open>\<open>trackable & operator=(trackable const & rhs)\<close>.\<close>

definition trackable_copy_assign :: "addr \<Rightarrow> addr \<Rightarrow> 'a world \<Rightarrow> failure + 'a world" where
  "trackable_copy_assign this rhs s =
     (case objs s this of None \<Rightarrow> Inl Invalid_pointer
      | Some l \<Rightarrow>
          (case objs s rhs of None \<Rightarrow> Inl Invalid_pointer
           | Some r \<Rightarrow>
               if this \<noteq> rhs then
                 (let s1 = s\<lparr>objs := (objs s)(this \<mapsto> l\<lparr>payload := payload r\<rparr>)\<rparr>
                  in if tracker_m l \<noteq> tracker_m r then
                       (case trackable_detach this s1 of Inl e \<Rightarrow> Inl e
                        | Inr (_, s2) \<Rightarrow>
                            (case objs s2 rhs of None \<Rightarrow> Inl Invalid_pointer
                             | Some r2 \<Rightarrow>
                                 (case tracker_m r2 of None \<Rightarrow> Inr s2
                                  | Some t \<Rightarrow>
                                      (case attach t (Some this) s2 of Inl e \<Rightarrow> Inl e
                                       | Inr (_, s3) \<Rightarrow> Inr s3))))
                     else Inr s1)
               else Inr s))"

text \<open>
  \<open>trackable(trackable && rhs)\<close>. What the payload of \<open>rhs\<close> holds after the move is up to
  \<open>Tracked_T\<close>; it is left as it was, as for the \<open>test_type\<close> of the tests.
\<close>

definition trackable_move_ctor :: "addr \<Rightarrow> addr \<Rightarrow> 'a world \<Rightarrow> failure + 'a world" where
  "trackable_move_ctor this rhs s =
     (if this \<in> dom (objs s) then Inl Invalid_pointer
      else (case objs s rhs of None \<Rightarrow> Inl Invalid_pointer
            | Some r \<Rightarrow>
                (let s1 = s\<lparr>objs := (objs s)(this \<mapsto> \<lparr>payload = payload r, tracker_m = None\<rparr>)\<rparr>;
                     tracker = tracker_m r
                 in case trackable_detach rhs s1 of Inl e \<Rightarrow> Inl e
                    | Inr (_, s2) \<Rightarrow>
                        (case tracker of None \<Rightarrow> Inr s2
                         | Some t \<Rightarrow>
                             (case attach t (Some this) s2 of Inl e \<Rightarrow> Inl e
                              | Inr (_, s3) \<Rightarrow> Inr s3)))))"

text \<open>\<open>trackable & operator=(trackable && rhs)\<close>.\<close>

definition trackable_move_assign :: "addr \<Rightarrow> addr \<Rightarrow> 'a world \<Rightarrow> failure + 'a world" where
  "trackable_move_assign this rhs s =
     (if this = rhs then Inl Assertion_failed
      else (case objs s this of None \<Rightarrow> Inl Invalid_pointer
            | Some l \<Rightarrow>
                (case objs s rhs of None \<Rightarrow> Inl Invalid_pointer
                 | Some r \<Rightarrow>
                     (let s1 = s\<lparr>objs := (objs s)(this \<mapsto> l\<lparr>payload := payload r\<rparr>)\<rparr>
                      in case trackable_detach this s1 of Inl e \<Rightarrow> Inl e
                         | Inr (_, s2) \<Rightarrow>
                             (case objs s2 rhs of None \<Rightarrow> Inl Invalid_pointer
                              | Some r2 \<Rightarrow>
                                  (let tracker = tracker_m r2
                                   in case trackable_detach rhs s2 of Inl e \<Rightarrow> Inl e
                                      | Inr (_, s3) \<Rightarrow>
                                          (case tracker of None \<Rightarrow> Inr s3
                                           | Some t \<Rightarrow>
                                               (case attach t (Some this) s3 of Inl e \<Rightarrow> Inl e
                                                | Inr (_, s4) \<Rightarrow> Inr s4))))))))"

text \<open>\<open>~trackable()\<close>: after the body has run the object no longer exists.\<close>

definition trackable_dtor :: "addr \<Rightarrow> 'a world \<Rightarrow> failure + 'a world" where
  "trackable_dtor this s =
     (case trackable_detach this s of Inl e \<Rightarrow> Inl e
      | Inr (_, s1) \<Rightarrow> Inr (s1\<lparr>objs := (objs s1)(this := None)\<rparr>))"

subsection \<open>Construction, assignment and destruction of a tracker\<close>

text \<open>\<open>tracker() = default\<close>.\<close>

definition tracker_ctor :: "addr \<Rightarrow> 'a world \<Rightarrow> failure + 'a world" where
  "tracker_ctor this s =
     (if this \<in> dom (trks s) then Inl Invalid_pointer
      else Inr (s\<lparr>trks := (trks s)(this \<mapsto> \<lparr>tracked_objects_m = []\<rparr>)\<rparr>))"

text \<open>
  The loop of the move constructor and of move assignment:
  \<open>static_cast<trackable *>(a_trackable)->tracker_ = this\<close> for every element.
\<close>

fun rewire_loop :: "addr \<Rightarrow> addr list \<Rightarrow> 'a world \<Rightarrow> failure + 'a world" where
  "rewire_loop this [] s = Inr s"
| "rewire_loop this (a # as) s =
     (case objs s a of None \<Rightarrow> Inl Invalid_pointer
      | Some ob \<Rightarrow> rewire_loop this as (s\<lparr>objs := (objs s)(a \<mapsto> ob\<lparr>tracker_m := Some this\<rparr>)\<rparr>))"

text \<open>
  \<open>tracker(tracker && rhs)\<close>. Moving the container leaves the container of \<open>rhs\<close> empty.
\<close>

definition tracker_move_ctor :: "addr \<Rightarrow> addr \<Rightarrow> 'a world \<Rightarrow> failure + 'a world" where
  "tracker_move_ctor this rhs s =
     (if this \<in> dom (trks s) then Inl Invalid_pointer
      else (case trks s rhs of None \<Rightarrow> Inl Invalid_pointer
            | Some r \<Rightarrow>
                rewire_loop this (tracked_objects_m r)
                  (s\<lparr>trks := (trks s)(this \<mapsto> \<lparr>tracked_objects_m = tracked_objects_m r\<rparr>,
                                       rhs \<mapsto> r\<lparr>tracked_objects_m := []\<rparr>)\<rparr>)))"

text \<open>\<open>tracker & operator=(tracker && rhs)\<close>.\<close>

definition tracker_move_assign :: "addr \<Rightarrow> addr \<Rightarrow> 'a world \<Rightarrow> failure + 'a world" where
  "tracker_move_assign this rhs s =
     (if this = rhs then Inl Assertion_failed
      else (case detach_all this s of Inl e \<Rightarrow> Inl e
            | Inr s1 \<Rightarrow>
                (case trks s1 this of None \<Rightarrow> Inl Invalid_pointer
                 | Some l \<Rightarrow>
                     (case trks s1 rhs of None \<Rightarrow> Inl Invalid_pointer
                      | Some r \<Rightarrow>
                          rewire_loop this (tracked_objects_m r)
                            (s1\<lparr>trks := (trks s1)
                                  (this \<mapsto> l\<lparr>tracked_objects_m := tracked_objects_m r\<rparr>,
                                   rhs \<mapsto> r\<lparr>tracked_objects_m := []\<rparr>)\<rparr>)))))"

text \<open>\<open>~tracker()\<close>.\<close>

definition tracker_dtor :: "addr \<Rightarrow> 'a world \<Rightarrow> failure + 'a world" where
  "tracker_dtor this s =
     (case detach_all this s of Inl e \<Rightarrow> Inl e
      | Inr s1 \<Rightarrow> Inr (s1\<lparr>trks := (trks s1)(this := None)\<rparr>))"

subsection \<open>Which constructor a construction of a trackable selects\<close>

text \<open>
  An argument of a construction \<open>trackable(args...)\<close> is an lvalue of type \<open>trackable\<close> (given
  by the address of the object), an rvalue of type \<open>trackable\<close>, or a value of another type
  that does not convert to \<open>trackable\<close>.
\<close>

datatype 'v argument = Trackable_lvalue addr | Trackable_rvalue addr | Other 'v

text \<open>
  The forwarding constructor is declared
  \<^verbatim>\<open>template <typename Arg, typename ...Args, typename = typename disable_if<...>::type>\<close>
  \<^verbatim>\<open>trackable(Args && ...args)\<close>.
  A constructor template cannot be given template arguments explicitly, so the template is
  a candidate only if each of its three parameters occurs in the function parameter list
  (and is deduced from the call) or has a default.
\<close>

datatype template_param = Arg | Args | Unnamed

definition in_function_params :: "template_param \<Rightarrow> bool" where
  "in_function_params p \<longleftrightarrow> p = Args"

definition has_default :: "template_param \<Rightarrow> bool" where
  "has_default p \<longleftrightarrow> p = Unnamed"

definition forwarding_ctor_viable :: bool where
  "forwarding_ctor_viable \<longleftrightarrow>
     list_all (\<lambda>p. in_function_params p \<or> has_default p) [Arg, Args, Unnamed]"

text \<open>
  The body of the forwarding constructor: \<open>tracked_type{std::forward<Args>(args)...}\<close> and
  \<open>tracker_{nullptr}\<close>. The constructors of the payload type are the parameter \<open>T\<close>:
  \<open>T args\<close> is the payload built from \<open>args\<close>, \<open>None\<close> when \<open>Tracked_T\<close> has no constructor
  for them.
\<close>

definition trackable_forwarding_ctor ::
  "('v argument list \<Rightarrow> 'a option) \<Rightarrow> addr \<Rightarrow> 'v argument list \<Rightarrow> 'a world \<Rightarrow> failure + 'a world" where
  "trackable_forwarding_ctor T this args s =
     (if this \<in> dom (objs s) then Inl Invalid_pointer
      else (case T args of None \<Rightarrow> Inl No_matching_constructor
            | Some v \<Rightarrow> Inr (s\<lparr>objs := (objs s)(this \<mapsto> \<lparr>payload = v, tracker_m = None\<rparr>)\<rparr>)))"

text \<open>
  \<open>std::make_unique<trackable>(std::forward<Args>(args)...)\<close>, and likewise a direct
  construction: no argument selects the defaulted default constructor, one \<open>trackable\<close>
  selects the copy or the move constructor, and everything else is left to the forwarding
  constructor.
\<close>

fun construct ::
  "('v argument list \<Rightarrow> 'a option) \<Rightarrow> addr \<Rightarrow> 'v argument list \<Rightarrow> 'a world \<Rightarrow> failure + 'a world" where
  "construct T this [] s =
     (case T [] of None \<Rightarrow> Inl No_matching_constructor | Some v \<Rightarrow> trackable_ctor this v s)"
| "construct T this [Trackable_lvalue rhs] s = trackable_copy_ctor this rhs s"
| "construct T this [Trackable_rvalue rhs] s = trackable_move_ctor this rhs s"
| "construct T this args s =
     (if forwarding_ctor_viable then trackable_forwarding_ctor T this args s
      else Inl No_matching_constructor)"

subsection \<open>make\<close>

text \<open>
  \<open>tracker::make(Args && ...args)\<close>; \<open>a\<close> is the address of the storage that
  \<open>std::make_unique\<close> obtains, and the returned handle owns the object at \<open>a\<close>.
\<close>

definition make ::
  "('v argument list \<Rightarrow> 'a option) \<Rightarrow> addr \<Rightarrow> addr \<Rightarrow> 'v argument list \<Rightarrow> 'a world
     \<Rightarrow> failure + addr \<times> 'a world" where
  "make T this a args s =
     (case construct T a args s of Inl e \<Rightarrow> Inl e
      | Inr s1 \<Rightarrow>
          (case connect this (Some a) s1 of Inl e \<Rightarrow> Inl e
           | Inr s2 \<Rightarrow> Inr (a, static_dispatch Did_make this a s2)))"

section \<open>The membership relation\<close>

text \<open>
  Every pointer in a tracker's container points to an existing trackable whose \<open>tracker_\<close>
  is that tracker, no pointer occurs twice in a container, and every trackable whose
  \<open>tracker_\<close> is not null points to an existing tracker whose container holds it.
\<close>

definition one_to_one :: "'a world \<Rightarrow> bool" where
  "one_to_one s \<longleftrightarrow>
     (\<forall>t \<in> dom (trks s).
        distinct (tracked_objects s t) \<and>
        (\<forall>a \<in> set (tracked_objects s t). is_attached s t (Some a))) \<and>
     (\<forall>a \<in> dom (objs s).
        \<forall>ob. objs s a = Some ob \<longrightarrow>
          (case tracker_m ob of None \<Rightarrow> True
           | Some t \<Rightarrow> t \<in> dom (trks s) \<and> a \<in> set (tracked_objects s t)))"

section \<open>Reachable worlds\<close>

text \<open>
  Whether the argument list of a construction is a single trackable that is attached.
\<close>

fun attached_argument :: "'a world \<Rightarrow> 'v argument list \<Rightarrow> bool" where
  "attached_argument s [Trackable_lvalue rhs] =
     (case objs s rhs of None \<Rightarrow> False | Some ob \<Rightarrow> trackable_is_attached ob)"
| "attached_argument s [Trackable_rvalue rhs] =
     (case objs s rhs of None \<Rightarrow> False | Some ob \<Rightarrow> trackable_is_attached ob)"
| "attached_argument s args = False"

text \<open>
  The worlds that a program reaches from an empty world through the public operations of
  \<open>tracker\<close> and \<open>trackable\<close>, none of which fails, and where \<open>make\<close> is not given an
  attached trackable as its argument.
\<close>

inductive reachable :: "('v argument list \<Rightarrow> 'a option) \<Rightarrow> 'a world \<Rightarrow> bool"
  for T :: "'v argument list \<Rightarrow> 'a option" where
  start: "reachable T \<lparr>objs = Map.empty, trks = Map.empty, container_t = k, calls = []\<rparr>"
| new_tracker: "reachable T s \<Longrightarrow> tracker_ctor this s = Inr s' \<Longrightarrow> reachable T s'"
| move_tracker: "reachable T s \<Longrightarrow> tracker_move_ctor this rhs s = Inr s' \<Longrightarrow> reachable T s'"
| assign_tracker: "reachable T s \<Longrightarrow> tracker_move_assign this rhs s = Inr s' \<Longrightarrow> reachable T s'"
| delete_tracker: "reachable T s \<Longrightarrow> tracker_dtor this s = Inr s' \<Longrightarrow> reachable T s'"
| make: "reachable T s \<Longrightarrow> \<not> attached_argument s args \<Longrightarrow> make T this a args s = Inr (h, s')
     \<Longrightarrow> reachable T s'"
| attach: "reachable T s \<Longrightarrow> attach this p s = Inr (b, s') \<Longrightarrow> reachable T s'"
| detach: "reachable T s \<Longrightarrow> detach this p s = Inr (b, s') \<Longrightarrow> reachable T s'"
| detach_all: "reachable T s \<Longrightarrow> detach_all this s = Inr s' \<Longrightarrow> reachable T s'"
| new_trackable: "reachable T s \<Longrightarrow> construct T a args s = Inr s' \<Longrightarrow> reachable T s'"
| copy_assign: "reachable T s \<Longrightarrow> trackable_copy_assign a rhs s = Inr s' \<Longrightarrow> reachable T s'"
| move_assign: "reachable T s \<Longrightarrow> trackable_move_assign a rhs s = Inr s' \<Longrightarrow> reachable T s'"
| delete_trackable: "reachable T s \<Longrightarrow> trackable_dtor a s = Inr s' \<Longrightarrow> reachable T s'"
| trackable_detach: "reachable T s \<Longrightarrow> trackable_detach a s = Inr (b, s') \<Longrightarrow> reachable T s'"

section \<open>The tests' payload type, example programs and an example world (tracker_test.cpp)\<close>

text \<open>
  \<open>struct test_type { std::int64_t value = 0; }\<close>: an aggregate, built from no argument
  (the member is 0) or from one integer. The member is modelled by its integer value; no
  arithmetic is done on it.
\<close>

fun test_type :: "int argument list \<Rightarrow> int option" where
  "test_type [] = Some 0"
| "test_type [Other v] = Some v"
| "test_type args = None"

definition empty_world :: "int world" where
  "empty_world = \<lparr>objs = Map.empty, trks = Map.empty, container_t = Std_vector, calls = []\<rparr>"

text \<open>
  A program that only uses the public interface: two trackers are constructed at 10 and
  20, \<open>make()\<close> is called on the first and gives the trackable at 1, and then
  \<open>make(*instance)\<close> is called on the second with that trackable as the argument; the new
  trackable is at 2.
\<close>

definition make_from_other_tracker :: "failure + addr \<times> int world" where
  "make_from_other_tracker =
     (case tracker_ctor 10 empty_world of Inl e \<Rightarrow> Inl e
      | Inr s1 \<Rightarrow>
          (case tracker_ctor 20 s1 of Inl e \<Rightarrow> Inl e
           | Inr s2 \<Rightarrow>
               (case make test_type 10 1 [] s2 of Inl e \<Rightarrow> Inl e
                | Inr (_, s3) \<Rightarrow> make test_type 20 2 [Trackable_lvalue 1] s3)))"

text \<open>
  The same program goes on with \<open>attach\<close> of the new trackable, at 2, on the first
  tracker. The three programs after it each take one more step from there: \<open>detach_all\<close>
  on the first tracker, \<open>detach\<close> of the trackable at 2 on the first tracker, and \<open>attach\<close>
  of the trackable at 2 on the second tracker.
\<close>

definition attach_after_make :: "failure + bool \<times> int world" where
  "attach_after_make =
     (case make_from_other_tracker of Inl e \<Rightarrow> Inl e
      | Inr (_, s) \<Rightarrow> attach 10 (Some 2) s)"

definition detach_all_after_make :: "failure + int world" where
  "detach_all_after_make =
     (case attach_after_make of Inl e \<Rightarrow> Inl e
      | Inr (_, s) \<Rightarrow> detach_all 10 s)"

definition detach_after_make :: "failure + bool \<times> int world" where
  "detach_after_make =
     (case attach_after_make of Inl e \<Rightarrow> Inl e
      | Inr (_, s) \<Rightarrow> detach 10 (Some 2) s)"

definition cross_attach_after_make :: "failure + bool \<times> int world" where
  "cross_attach_after_make =
     (case attach_after_make of Inl e \<Rightarrow> Inl e
      | Inr (_, s) \<Rightarrow> attach 20 (Some 2) s)"

text \<open>
  A small world for the examples, as the tests set one up: two trackers with vectors, the
  tracker at 10 tracking the trackables at 1 and 2, the tracker at 20 tracking the one at
  3, and a detached trackable at 4.
\<close>

definition example_world :: "int world" where
  "example_world =
     \<lparr>objs = [1 \<mapsto> \<lparr>payload = 0, tracker_m = Some 10\<rparr>,
              2 \<mapsto> \<lparr>payload = 5, tracker_m = Some 10\<rparr>,
              3 \<mapsto> \<lparr>payload = 7, tracker_m = Some 20\<rparr>,
              4 \<mapsto> \<lparr>payload = 9, tracker_m = None\<rparr>],
      trks = [10 \<mapsto> \<lparr>tracked_objects_m = [1, 2]\<rparr>, 20 \<mapsto> \<lparr>tracked_objects_m = [3]\<rparr>],
      container_t = Std_vector,
      calls = []\<rparr>"

section \<open>Properties of the container operations\<close>

lemma find_impl_None: "find_impl xs a = None \<longleftrightarrow> a \<notin> set xs"
  by (induction xs) auto

lemma find_impl_erase: "find_impl xs a = Some i \<Longrightarrow> erase xs i = remove1 a xs"
proof (induction xs arbitrary: i)
  case Nil
  then show ?case by simp
next
  case (Cons x xs)
  show ?case
  proof (cases "x = a")
    case True
    with Cons.prems show ?thesis by (simp add: erase_def)
  next
    case False
    with Cons.prems obtain j where j: "find_impl xs a = Some j" "i = Suc j" by auto
    from Cons.IH [OF j(1)] False j(2) show ?thesis by (simp add: erase_def)
  qed
qed

lemma find_impl_mem: "a \<in> set xs \<Longrightarrow> \<exists>i. find_impl xs a = Some i"
  using find_impl_None [of xs a] by (cases "find_impl xs a") auto

lemma set_insert_end: "set (insert_end k xs a) = insert a (set xs)"
  by (cases k) (auto simp: set_insort_key)

lemma distinct_insert_end: "distinct xs \<Longrightarrow> a \<notin> set xs \<Longrightarrow> distinct (insert_end k xs a)"
  by (cases k) (auto simp: distinct_insort)

lemma length_insert_end: "a \<notin> set xs \<Longrightarrow> length (insert_end k xs a) = Suc (length xs)"
  by (cases k) auto

lemma length_remove1_mem: "a \<in> set xs \<Longrightarrow> Suc (length (remove1 a xs)) = length xs"
  by (induction xs) auto

section \<open>The membership relation under linking and unlinking\<close>

lemma one_to_one_iff:
  "one_to_one s \<longleftrightarrow>
     (\<forall>t tk. trks s t = Some tk \<longrightarrow>
        distinct (tracked_objects_m tk) \<and>
        (\<forall>a \<in> set (tracked_objects_m tk). \<exists>ob. objs s a = Some ob \<and> tracker_m ob = Some t)) \<and>
     (\<forall>a ob t. objs s a = Some ob \<longrightarrow> tracker_m ob = Some t \<longrightarrow>
        (\<exists>tk. trks s t = Some tk \<and> a \<in> set (tracked_objects_m tk)))"
proof -
  have A: "(\<forall>t \<in> dom (trks s).
        distinct (tracked_objects s t) \<and>
        (\<forall>a \<in> set (tracked_objects s t). is_attached s t (Some a)))
     \<longleftrightarrow> (\<forall>t tk. trks s t = Some tk \<longrightarrow>
        distinct (tracked_objects_m tk) \<and>
        (\<forall>a \<in> set (tracked_objects_m tk). \<exists>ob. objs s a = Some ob \<and> tracker_m ob = Some t))"
    (is "?L = ?R")
  proof
    assume L: ?L
    show ?R
    proof (intro allI impI)
      fix t tk assume tk: "trks s t = Some tk"
      then have "t \<in> dom (trks s)" by auto
      with L have "distinct (tracked_objects s t) \<and>
        (\<forall>a \<in> set (tracked_objects s t). is_attached s t (Some a))" by blast
      with tk show "distinct (tracked_objects_m tk) \<and>
        (\<forall>a \<in> set (tracked_objects_m tk). \<exists>ob. objs s a = Some ob \<and> tracker_m ob = Some t)"
        by (auto simp: tracked_objects_def is_attached_def split: option.splits)
    qed
  next
    assume R: ?R
    show ?L
    proof
      fix t assume "t \<in> dom (trks s)"
      then obtain tk where tk: "trks s t = Some tk" by auto
      with R have "distinct (tracked_objects_m tk) \<and>
        (\<forall>a \<in> set (tracked_objects_m tk). \<exists>ob. objs s a = Some ob \<and> tracker_m ob = Some t)"
        by blast
      with tk show "distinct (tracked_objects s t) \<and>
        (\<forall>a \<in> set (tracked_objects s t). is_attached s t (Some a))"
        by (auto simp: tracked_objects_def is_attached_def)
    qed
  qed
  have B: "(\<forall>a \<in> dom (objs s).
        \<forall>ob. objs s a = Some ob \<longrightarrow>
          (case tracker_m ob of None \<Rightarrow> True
           | Some t \<Rightarrow> t \<in> dom (trks s) \<and> a \<in> set (tracked_objects s t)))
     \<longleftrightarrow> (\<forall>a ob t. objs s a = Some ob \<longrightarrow> tracker_m ob = Some t \<longrightarrow>
        (\<exists>tk. trks s t = Some tk \<and> a \<in> set (tracked_objects_m tk)))"
    (is "?L = ?R")
  proof
    assume L: ?L
    show ?R
    proof (intro allI impI)
      fix a ob t assume ob: "objs s a = Some ob" "tracker_m ob = Some t"
      then have "a \<in> dom (objs s)" by auto
      with L ob have "t \<in> dom (trks s) \<and> a \<in> set (tracked_objects s t)" by fastforce
      then show "\<exists>tk. trks s t = Some tk \<and> a \<in> set (tracked_objects_m tk)"
        by (auto simp: tracked_objects_def)
    qed
  next
    assume R: ?R
    show ?L
    proof (intro ballI allI impI)
      fix a ob assume ob: "objs s a = Some ob"
      show "case tracker_m ob of None \<Rightarrow> True
           | Some t \<Rightarrow> t \<in> dom (trks s) \<and> a \<in> set (tracked_objects s t)"
      proof (cases "tracker_m ob")
        case None
        then show ?thesis by simp
      next
        case (Some t)
        with R ob obtain tk where "trks s t = Some tk" "a \<in> set (tracked_objects_m tk)" by blast
        with Some show ?thesis by (auto simp: tracked_objects_def)
      qed
    qed
  qed
  show ?thesis unfolding one_to_one_def A B ..
qed

lemma one_to_one_member:
  "one_to_one s \<Longrightarrow> trks s t = Some tk \<Longrightarrow> a \<in> set (tracked_objects_m tk)
     \<Longrightarrow> \<exists>ob. objs s a = Some ob \<and> tracker_m ob = Some t"
  unfolding one_to_one_iff by blast

lemma one_to_one_distinct:
  "one_to_one s \<Longrightarrow> trks s t = Some tk \<Longrightarrow> distinct (tracked_objects_m tk)"
  unfolding one_to_one_iff by blast

lemma one_to_one_back:
  "one_to_one s \<Longrightarrow> objs s a = Some ob \<Longrightarrow> tracker_m ob = Some t
     \<Longrightarrow> \<exists>tk. trks s t = Some tk \<and> a \<in> set (tracked_objects_m tk)"
  unfolding one_to_one_iff by blast

lemma one_to_one_unlink:
  assumes inv: "one_to_one s"
    and ob: "objs s a = Some ob" and tk: "trks s t = Some tk"
    and att: "tracker_m ob = Some t"
    and o': "objs s' = (objs s)(a \<mapsto> ob\<lparr>tracker_m := None\<rparr>)"
    and t': "trks s' = (trks s)(t \<mapsto> tk\<lparr>tracked_objects_m := remove1 a (tracked_objects_m tk)\<rparr>)"
  shows "one_to_one s'"
proof -
  from inv tk have d: "distinct (tracked_objects_m tk)"
    by (rule one_to_one_distinct)
  show ?thesis
    unfolding one_to_one_iff
  proof (rule conjI; intro allI impI)
    fix u uk assume uk: "trks s' u = Some uk"
    show "distinct (tracked_objects_m uk) \<and>
        (\<forall>b \<in> set (tracked_objects_m uk). \<exists>ob. objs s' b = Some ob \<and> tracker_m ob = Some u)"
    proof (cases "u = t")
      case True
      with uk t' have uk_eq: "tracked_objects_m uk = remove1 a (tracked_objects_m tk)" by auto
      have "\<exists>ob. objs s' b = Some ob \<and> tracker_m ob = Some u"
        if "b \<in> set (tracked_objects_m uk)" for b
      proof -
        from that uk_eq d have b: "b \<in> set (tracked_objects_m tk)" "b \<noteq> a" by auto
        with inv tk obtain obb where "objs s b = Some obb" "tracker_m obb = Some t"
          using one_to_one_member by blast
        with b o' True show ?thesis by auto
      qed
      with uk_eq d show ?thesis by auto
    next
      case False
      with uk t' have uk0: "trks s u = Some uk" by auto
      with inv have du: "distinct (tracked_objects_m uk)"
        and mu: "\<forall>b \<in> set (tracked_objects_m uk). \<exists>ob. objs s b = Some ob \<and> tracker_m ob = Some u"
        using one_to_one_distinct one_to_one_member by blast+
      have "\<exists>ob. objs s' b = Some ob \<and> tracker_m ob = Some u"
        if "b \<in> set (tracked_objects_m uk)" for b
      proof -
        from mu that obtain obb where obb: "objs s b = Some obb" "tracker_m obb = Some u" by auto
        with ob att False have "b \<noteq> a" by auto
        with obb o' show ?thesis by auto
      qed
      with du show ?thesis by auto
    qed
  next
    fix b obb u assume b: "objs s' b = Some obb" "tracker_m obb = Some u"
    from b o' have ba: "b \<noteq> a" by (auto split: if_splits)
    with b o' have b0: "objs s b = Some obb" by auto
    with inv b(2) obtain uk where uk: "trks s u = Some uk" "b \<in> set (tracked_objects_m uk)"
      using one_to_one_back by blast
    show "\<exists>tk. trks s' u = Some tk \<and> b \<in> set (tracked_objects_m tk)"
    proof (cases "u = t")
      case True
      with uk tk ba t' show ?thesis by auto
    next
      case False
      with uk t' show ?thesis by auto
    qed
  qed
qed

lemma one_to_one_link:
  assumes inv: "one_to_one s"
    and ob: "objs s a = Some ob" and tk: "trks s t = Some tk"
    and det: "tracker_m ob = None"
    and o': "objs s' = (objs s)(a \<mapsto> ob\<lparr>tracker_m := Some t\<rparr>)"
    and t': "trks s' = (trks s)(t \<mapsto> tk\<lparr>tracked_objects_m := insert_end k (tracked_objects_m tk) a\<rparr>)"
  shows "one_to_one s'"
proof -
  from inv tk have d: "distinct (tracked_objects_m tk)"
    by (rule one_to_one_distinct)
  have notin: "a \<notin> set (tracked_objects_m uk)" if "trks s u = Some uk" for u uk
  proof
    assume "a \<in> set (tracked_objects_m uk)"
    with inv that obtain oba where "objs s a = Some oba" "tracker_m oba = Some u"
      using one_to_one_member by blast
    with ob det show False by simp
  qed
  show ?thesis
    unfolding one_to_one_iff
  proof (rule conjI; intro allI impI)
    fix u uk assume uk: "trks s' u = Some uk"
    show "distinct (tracked_objects_m uk) \<and>
        (\<forall>b \<in> set (tracked_objects_m uk). \<exists>ob. objs s' b = Some ob \<and> tracker_m ob = Some u)"
    proof (cases "u = t")
      case True
      with uk t' have uk_eq: "tracked_objects_m uk = insert_end k (tracked_objects_m tk) a" by auto
      have "\<exists>ob. objs s' b = Some ob \<and> tracker_m ob = Some u"
        if "b \<in> set (tracked_objects_m uk)" for b
      proof (cases "b = a")
        case True
        with o' \<open>u = t\<close> show ?thesis by simp
      next
        case False
        with that uk_eq have "b \<in> set (tracked_objects_m tk)" by (simp add: set_insert_end)
        with inv tk obtain obb where "objs s b = Some obb" "tracker_m obb = Some t"
          using one_to_one_member by blast
        with False o' \<open>u = t\<close> show ?thesis by auto
      qed
      moreover have "distinct (tracked_objects_m uk)"
        unfolding uk_eq using d notin [OF tk] by (rule distinct_insert_end)
      ultimately show ?thesis by auto
    next
      case False
      with uk t' have uk0: "trks s u = Some uk" by auto
      with inv have du: "distinct (tracked_objects_m uk)"
        and mu: "\<forall>b \<in> set (tracked_objects_m uk). \<exists>ob. objs s b = Some ob \<and> tracker_m ob = Some u"
        using one_to_one_distinct one_to_one_member by blast+
      have "\<exists>ob. objs s' b = Some ob \<and> tracker_m ob = Some u"
        if "b \<in> set (tracked_objects_m uk)" for b
      proof -
        from mu that obtain obb where obb: "objs s b = Some obb" "tracker_m obb = Some u" by auto
        from that notin [OF uk0] have "b \<noteq> a" by auto
        with obb o' show ?thesis by auto
      qed
      with du show ?thesis by auto
    qed
  next
    fix b obb u assume b: "objs s' b = Some obb" "tracker_m obb = Some u"
    show "\<exists>tk. trks s' u = Some tk \<and> b \<in> set (tracked_objects_m tk)"
    proof (cases "b = a")
      case True
      with b o' have "u = t" by auto
      with True t' show ?thesis by (simp add: set_insert_end)
    next
      case False
      with b o' have "objs s b = Some obb" by auto
      with inv b(2) obtain uk where uk: "trks s u = Some uk" "b \<in> set (tracked_objects_m uk)"
        using one_to_one_back by blast
      show ?thesis
      proof (cases "u = t")
        case True
        with uk tk t' show ?thesis by (auto simp: set_insert_end)
      next
        case False
        with uk t' show ?thesis by auto
      qed
    qed
  qed
qed

lemma one_to_one_cong:
  "objs s' = objs s \<Longrightarrow> trks s' = trks s \<Longrightarrow> one_to_one s' = one_to_one s"
  by (simp add: one_to_one_iff)

section \<open>What detach and attach do\<close>

lemma detach_detached: "is_detached s t p \<Longrightarrow> detach t p s = Inr (False, s)"
  by (simp add: detach_def)

lemma detach_attached:
  assumes inv: "one_to_one s" and ob: "objs s a = Some ob" and att: "tracker_m ob = Some t"
  obtains tk s' where "trks s t = Some tk" "a \<in> set (tracked_objects_m tk)"
    "detach t (Some a) s = Inr (True, s')"
    "objs s' = (objs s)(a \<mapsto> ob\<lparr>tracker_m := None\<rparr>)"
    "trks s' = (trks s)(t \<mapsto> tk\<lparr>tracked_objects_m := remove1 a (tracked_objects_m tk)\<rparr>)"
    "calls s' = calls s @ [\<lparr>hook = Did_detach, receiver = t, argument = a,
        objs_seen = objs s', trks_seen = trks s'\<rparr>]"
    "container_t s' = container_t s" "one_to_one s'"
proof -
  from one_to_one_back [OF inv ob att] obtain tk
    where tk: "trks s t = Some tk" and mem: "a \<in> set (tracked_objects_m tk)" by blast
  from find_impl_mem [OF mem] obtain i where i: "find_impl (tracked_objects_m tk) a = Some i" ..
  define s1 where "s1 = s\<lparr>objs := (objs s)(a \<mapsto> ob\<lparr>tracker_m := None\<rparr>),
     trks := (trks s)(t \<mapsto> tk\<lparr>tracked_objects_m := remove1 a (tracked_objects_m tk)\<rparr>)\<rparr>"
  have dis: "disconnect t (Some a) s = Inr s1"
    using ob att tk i by (simp add: disconnect_def s1_def find_impl_erase)
  define s' where "s' = static_dispatch Did_detach t a s1"
  have det: "detach t (Some a) s = Inr (True, s')"
    using ob att dis by (simp add: detach_def is_detached_def is_attached_def s'_def)
  have o': "objs s' = (objs s)(a \<mapsto> ob\<lparr>tracker_m := None\<rparr>)"
    and t': "trks s' = (trks s)(t \<mapsto> tk\<lparr>tracked_objects_m := remove1 a (tracked_objects_m tk)\<rparr>)"
    by (simp_all add: s'_def s1_def static_dispatch_def)
  have c': "calls s' = calls s @ [\<lparr>hook = Did_detach, receiver = t, argument = a,
        objs_seen = objs s', trks_seen = trks s'\<rparr>]"
    by (simp add: s'_def s1_def static_dispatch_def)
  have k': "container_t s' = container_t s"
    by (simp add: s'_def s1_def static_dispatch_def)
  have "one_to_one s'" using inv ob tk att o' t' by (rule one_to_one_unlink)
  with tk mem det o' t' c' k' show thesis by (rule that)
qed

lemma trackable_detach_detached:
  "objs s a = Some ob \<Longrightarrow> tracker_m ob = None \<Longrightarrow> trackable_detach a s = Inr (False, s)"
  by (simp add: trackable_detach_def my_tracker_def)

lemma trackable_detach_attached:
  assumes inv: "one_to_one s" and ob: "objs s a = Some ob" and att: "tracker_m ob = Some t"
  obtains tk s' where "trks s t = Some tk" "a \<in> set (tracked_objects_m tk)"
    "trackable_detach a s = Inr (True, s')"
    "objs s' = (objs s)(a \<mapsto> ob\<lparr>tracker_m := None\<rparr>)"
    "trks s' = (trks s)(t \<mapsto> tk\<lparr>tracked_objects_m := remove1 a (tracked_objects_m tk)\<rparr>)"
    "calls s' = calls s @ [\<lparr>hook = Did_detach, receiver = t, argument = a,
        objs_seen = objs s', trks_seen = trks s'\<rparr>]"
    "container_t s' = container_t s" "one_to_one s'"
proof -
  from detach_attached [OF inv ob att] obtain tk s' where
    r: "trks s t = Some tk" "a \<in> set (tracked_objects_m tk)"
    "detach t (Some a) s = Inr (True, s')"
    "objs s' = (objs s)(a \<mapsto> ob\<lparr>tracker_m := None\<rparr>)"
    "trks s' = (trks s)(t \<mapsto> tk\<lparr>tracked_objects_m := remove1 a (tracked_objects_m tk)\<rparr>)"
    "calls s' = calls s @ [\<lparr>hook = Did_detach, receiver = t, argument = a,
        objs_seen = objs s', trks_seen = trks s'\<rparr>]"
    "container_t s' = container_t s" "one_to_one s'" .
  have "trackable_detach a s = Inr (True, s')"
    using ob att r(3,4)
    by (simp add: trackable_detach_def my_tracker_def trackable_is_detached_def
        trackable_is_attached_def)
  with r show thesis using that by blast
qed

lemma connect_ok:
  assumes ob: "objs s a = Some ob" and tk: "trks s t = Some tk"
    and ne: "tracker_m ob \<noteq> Some t"
  obtains s' where "connect t (Some a) s = Inr s'"
    "objs s' = (objs s)(a \<mapsto> ob\<lparr>tracker_m := Some t\<rparr>)"
    "trks s' = (trks s)(t \<mapsto> tk\<lparr>tracked_objects_m :=
        insert_end (container_t s) (tracked_objects_m tk) a\<rparr>)"
    "calls s' = calls s" "container_t s' = container_t s"
proof -
  define s' where "s' = s\<lparr>objs := (objs s)(a \<mapsto> ob\<lparr>tracker_m := Some t\<rparr>),
     trks := (trks s)(t \<mapsto> tk\<lparr>tracked_objects_m :=
        insert_end (container_t s) (tracked_objects_m tk) a\<rparr>)\<rparr>"
  have "connect t (Some a) s = Inr s'"
    using assms by (simp add: connect_def s'_def)
  then show thesis by (rule that) (simp_all add: s'_def)
qed

lemma attach_null: "attach t None s = Inr (False, s)"
  by (simp add: attach_def)

lemma attach_attached: "is_attached s t p \<Longrightarrow> attach t p s = Inr (False, s)"
  by (cases p) (simp_all add: attach_def)

lemma attach_detached:
  assumes inv: "one_to_one s" and ob: "objs s a = Some ob" and tk: "trks s t = Some tk"
    and det: "tracker_m ob = None"
  obtains s' where "attach t (Some a) s = Inr (True, s')"
    "objs s' = (objs s)(a \<mapsto> ob\<lparr>tracker_m := Some t\<rparr>)"
    "trks s' = (trks s)(t \<mapsto> tk\<lparr>tracked_objects_m :=
        insert_end (container_t s) (tracked_objects_m tk) a\<rparr>)"
    "calls s' = calls s @ [\<lparr>hook = Did_attach, receiver = t, argument = a,
        objs_seen = objs s', trks_seen = trks s'\<rparr>]"
    "container_t s' = container_t s" "one_to_one s'"
proof -
  from det have ne: "tracker_m ob \<noteq> Some t" by simp
  from connect_ok [OF ob tk ne] obtain s2 where
    c: "connect t (Some a) s = Inr s2"
    "objs s2 = (objs s)(a \<mapsto> ob\<lparr>tracker_m := Some t\<rparr>)"
    "trks s2 = (trks s)(t \<mapsto> tk\<lparr>tracked_objects_m :=
        insert_end (container_t s) (tracked_objects_m tk) a\<rparr>)"
    "calls s2 = calls s" "container_t s2 = container_t s" .
  define s' where "s' = static_dispatch Did_attach t a s2"
  have a: "attach t (Some a) s = Inr (True, s')"
    using ob det c(1) trackable_detach_detached [OF ob det]
    by (simp add: attach_def is_attached_def s'_def)
  have o': "objs s' = (objs s)(a \<mapsto> ob\<lparr>tracker_m := Some t\<rparr>)"
    and t': "trks s' = (trks s)(t \<mapsto> tk\<lparr>tracked_objects_m :=
        insert_end (container_t s) (tracked_objects_m tk) a\<rparr>)"
    and k': "container_t s' = container_t s"
    using c by (simp_all add: s'_def static_dispatch_def)
  have c': "calls s' = calls s @ [\<lparr>hook = Did_attach, receiver = t, argument = a,
        objs_seen = objs s', trks_seen = trks s'\<rparr>]"
    using c by (simp add: s'_def static_dispatch_def)
  have "one_to_one s'" using inv ob tk det o' t' by (rule one_to_one_link)
  with a o' t' c' k' show thesis by (rule that)
qed

lemma attach_elsewhere:
  assumes inv: "one_to_one s" and ob: "objs s a = Some ob" and tk: "trks s t = Some tk"
    and att: "tracker_m ob = Some x" and ne: "x \<noteq> t"
  obtains xk s1 s' where "trks s x = Some xk" "a \<in> set (tracked_objects_m xk)"
    "detach x (Some a) s = Inr (True, s1)"
    "objs s1 = (objs s)(a \<mapsto> ob\<lparr>tracker_m := None\<rparr>)"
    "trks s1 = (trks s)(x \<mapsto> xk\<lparr>tracked_objects_m := remove1 a (tracked_objects_m xk)\<rparr>)"
    "attach t (Some a) s = Inr (True, s')"
    "objs s' = (objs s)(a \<mapsto> ob\<lparr>tracker_m := Some t\<rparr>)"
    "trks s' = (trks s1)(t \<mapsto> tk\<lparr>tracked_objects_m :=
        insert_end (container_t s) (tracked_objects_m tk) a\<rparr>)"
    "calls s' = calls s @
       [\<lparr>hook = Did_detach, receiver = x, argument = a, objs_seen = objs s1, trks_seen = trks s1\<rparr>,
        \<lparr>hook = Did_attach, receiver = t, argument = a, objs_seen = objs s', trks_seen = trks s'\<rparr>]"
    "container_t s' = container_t s" "one_to_one s'"
proof -
  from trackable_detach_attached [OF inv ob att] obtain xk s1 where
    d: "trks s x = Some xk" "a \<in> set (tracked_objects_m xk)"
    "trackable_detach a s = Inr (True, s1)"
    "objs s1 = (objs s)(a \<mapsto> ob\<lparr>tracker_m := None\<rparr>)"
    "trks s1 = (trks s)(x \<mapsto> xk\<lparr>tracked_objects_m := remove1 a (tracked_objects_m xk)\<rparr>)"
    "calls s1 = calls s @ [\<lparr>hook = Did_detach, receiver = x, argument = a,
        objs_seen = objs s1, trks_seen = trks s1\<rparr>]"
    "container_t s1 = container_t s" "one_to_one s1" .
  from detach_attached [OF inv ob att] d(1,4,5) obtain s1' where
    d': "detach x (Some a) s = Inr (True, s1')" "objs s1' = objs s1" "trks s1' = trks s1"
      "calls s1' = calls s @ [\<lparr>hook = Did_detach, receiver = x, argument = a,
        objs_seen = objs s1', trks_seen = trks s1'\<rparr>]" "container_t s1' = container_t s"
    by (metis option.inject)
  have "s1' = s1" using d' d(6,7) by (intro world.equality) simp_all
  with d' have dx: "detach x (Some a) s = Inr (True, s1)" by simp
  have ob1: "objs s1 a = Some (ob\<lparr>tracker_m := None\<rparr>)" using d(4) by simp
  have tk1: "trks s1 t = Some tk" using d(5) tk ne by simp
  from attach_detached [OF d(8) ob1 tk1] obtain s' where
    a: "attach t (Some a) s1 = Inr (True, s')"
    "objs s' = (objs s1)(a \<mapsto> ob\<lparr>tracker_m := None\<rparr>\<lparr>tracker_m := Some t\<rparr>)"
    "trks s' = (trks s1)(t \<mapsto> tk\<lparr>tracked_objects_m :=
        insert_end (container_t s1) (tracked_objects_m tk) a\<rparr>)"
    "calls s' = calls s1 @ [\<lparr>hook = Did_attach, receiver = t, argument = a,
        objs_seen = objs s', trks_seen = trks s'\<rparr>]"
    "container_t s' = container_t s1" "one_to_one s'" by auto
  have conn: "connect t (Some a) s1 = Inr s2 \<Longrightarrow> Inr (True, static_dispatch Did_attach t a s2) = Inr (True, s')" for s2
    using a(1) ob1 trackable_detach_detached [OF ob1]
    by (simp add: attach_def is_attached_def)
  have at: "attach t (Some a) s = Inr (True, s')"
    using ob att ne d(3) a(1) ob1 trackable_detach_detached [OF ob1]
    by (simp add: attach_def is_attached_def split: sum.splits)
  have o': "objs s' = (objs s)(a \<mapsto> ob\<lparr>tracker_m := Some t\<rparr>)"
    using a(2) d(4) by simp
  have t': "trks s' = (trks s1)(t \<mapsto> tk\<lparr>tracked_objects_m :=
        insert_end (container_t s) (tracked_objects_m tk) a\<rparr>)"
    using a(3) d(7) by simp
  have c': "calls s' = calls s @
       [\<lparr>hook = Did_detach, receiver = x, argument = a, objs_seen = objs s1, trks_seen = trks s1\<rparr>,
        \<lparr>hook = Did_attach, receiver = t, argument = a, objs_seen = objs s', trks_seen = trks s'\<rparr>]"
    using a(4) d(6) by simp
  have k': "container_t s' = container_t s" using a(5) d(7) by simp
  from d(1,2) dx d(4,5) at o' t' c' k' a(6) show thesis by (rule that)
qed

section \<open>The example world\<close>

lemma example_world_ok: "one_to_one example_world"
  by (simp add: one_to_one_def example_world_def tracked_objects_def is_attached_def)

section \<open>Which notifications detach and attach make\<close>

lemma connect_calls: "connect t p s = Inr s' \<Longrightarrow> calls s' = calls s"
  by (auto simp: connect_def split: option.splits if_splits)

lemma disconnect_calls: "disconnect t p s = Inr s' \<Longrightarrow> calls s' = calls s"
  by (auto simp: disconnect_def split: option.splits if_splits)

lemma detach_hooks:
  assumes "detach t p s = Inr (b, s')"
  shows "\<exists>cs. calls s' = calls s @ cs \<and> (\<forall>c \<in> set cs. hook c = Did_detach)"
proof (cases "is_detached s t p")
  case True
  with assms show ?thesis by (simp add: detach_def)
next
  case False
  with assms obtain s1 a where "disconnect t p s = Inr s1" "p = Some a"
    "s' = static_dispatch Did_detach t a s1"
    by (auto simp: detach_def split: sum.splits option.splits)
  with disconnect_calls [of t p s s1] show ?thesis
    by (simp add: static_dispatch_def)
qed

lemma trackable_detach_hooks:
  assumes "trackable_detach a s = Inr (b, s')"
  shows "\<exists>cs. calls s' = calls s @ cs \<and> (\<forall>c \<in> set cs. hook c = Did_detach)"
proof -
  from assms have "(b, s') = (False, s) \<or> (\<exists>t. detach t (Some a) s = Inr (b, s'))"
    by (auto simp: trackable_detach_def split: option.splits sum.splits if_splits)
  then show ?thesis using detach_hooks by fastforce
qed

lemma attach_hooks:
  assumes r: "attach t p s = Inr (b, s')"
  shows "\<exists>cs. calls s' = calls s @ cs \<and> (\<forall>c \<in> set cs. hook c \<noteq> Did_make)"
proof (cases "p = None \<or> is_attached s t p")
  case True
  with r have "s' = s" by (auto simp: attach_def split: option.splits)
  then show ?thesis by simp
next
  case False
  then obtain a where p: "p = Some a" and na: "\<not> is_attached s t (Some a)" by auto
  from r p na obtain b1 s1 s2 where
    d: "trackable_detach a s = Inr (b1, s1)" and c: "connect t (Some a) s1 = Inr s2"
    and s': "s' = static_dispatch Did_attach t a s2"
    by (auto simp: attach_def split: sum.splits)
  from trackable_detach_hooks [OF d] obtain cs where
    cs: "calls s1 = calls s @ cs" "\<forall>c \<in> set cs. hook c = Did_detach" by blast
  from connect_calls [OF c] cs s'
  have "calls s' = calls s @ (cs @ [\<lparr>hook = Did_attach, receiver = t, argument = a,
          objs_seen = objs s2, trks_seen = trks s2\<rparr>])"
    by (simp add: static_dispatch_def)
  moreover have "\<forall>c \<in> set (cs @ [\<lparr>hook = Did_attach, receiver = t, argument = a,
          objs_seen = objs s2, trks_seen = trks s2\<rparr>]). hook c \<noteq> Did_make"
    using cs(2) by auto
  ultimately show ?thesis by blast
qed


section \<open>attach\<close>

text \<open>
  What \<open>attach\<close> does in a world where membership is one-to-one: \<open>attach\<close> of a null pointer, or of a pointer
  to a trackable already attached to this tracker, returns \<open>false\<close> and leaves the world as
  it is (containers, \<open>tracker_\<close> members and recorded notifications); a null pointer is
  reported as not attached and as detached. For a trackable \<open>a\<close> attached to another
  tracker \<open>x\<close>, \<open>attach\<close> returns \<open>true\<close> and makes exactly two notifications: first
  \<open>did_detach\<close> of \<open>x\<close>, as \<open>x.detach(a)\<close> makes it, seeing \<open>a\<close> detached and in neither
  container, then \<open>did_attach\<close> of this tracker; afterwards \<open>a\<close> is attached to this tracker,
  is in its container and in no other. No run of \<open>attach\<close> calls \<open>did_make\<close>.
\<close>

theorem attach_contract:
  assumes inv: "one_to_one s"
  shows "attach this None s = Inr (False, s)
    \<and> \<not> is_attached s this None \<and> is_detached s this None
    \<and> (is_attached s this p \<longrightarrow> attach this p s = Inr (False, s))
    \<and> (objs s a = Some ob \<and> tracker_m ob = Some x \<and> x \<noteq> this \<and> trks s this = Some tk \<longrightarrow>
         (\<exists>s1 s'. attach this (Some a) s = Inr (True, s')
            \<and> calls s' = calls s @
                 [\<lparr>hook = Did_detach, receiver = x, argument = a,
                   objs_seen = objs s1, trks_seen = trks s1\<rparr>,
                  \<lparr>hook = Did_attach, receiver = this, argument = a,
                   objs_seen = objs s', trks_seen = trks s'\<rparr>]
            \<and> detach x (Some a) s = Inr (True, s1)
            \<and> \<not> is_attached s1 x (Some a) \<and> a \<notin> set (tracked_objects s1 x)
            \<and> a \<notin> set (tracked_objects s1 this)
            \<and> is_attached s' this (Some a) \<and> a \<in> set (tracked_objects s' this)
            \<and> (\<forall>u. u \<noteq> this \<longrightarrow>
                   \<not> is_attached s' u (Some a) \<and> a \<notin> set (tracked_objects s' u))))
    \<and> (\<forall>b s'. attach this p s = Inr (b, s') \<longrightarrow>
          (\<exists>cs. calls s' = calls s @ cs \<and> (\<forall>c \<in> set cs. hook c \<noteq> Did_make)))"
proof (intro conjI impI)
  show "attach this None s = Inr (False, s)" by (rule attach_null)
  show "\<not> is_attached s this None" by (simp add: is_attached_def)
  show "is_detached s this None" by (simp add: is_detached_def is_attached_def)
  show "attach this p s = Inr (False, s)" if "is_attached s this p"
    using that by (rule attach_attached)
  show "\<forall>b s'. attach this p s = Inr (b, s') \<longrightarrow>
          (\<exists>cs. calls s' = calls s @ cs \<and> (\<forall>c \<in> set cs. hook c \<noteq> Did_make))"
    using attach_hooks by blast
next
  assume h: "objs s a = Some ob \<and> tracker_m ob = Some x \<and> x \<noteq> this \<and> trks s this = Some tk"
  then have ob: "objs s a = Some ob" and att: "tracker_m ob = Some x" and ne: "x \<noteq> this"
    and tk: "trks s this = Some tk" by simp_all
  from attach_elsewhere [OF inv ob tk att ne] obtain xk s1 s' where
    r: "trks s x = Some xk" "a \<in> set (tracked_objects_m xk)"
    "detach x (Some a) s = Inr (True, s1)"
    "objs s1 = (objs s)(a \<mapsto> ob\<lparr>tracker_m := None\<rparr>)"
    "trks s1 = (trks s)(x \<mapsto> xk\<lparr>tracked_objects_m := remove1 a (tracked_objects_m xk)\<rparr>)"
    "attach this (Some a) s = Inr (True, s')"
    "objs s' = (objs s)(a \<mapsto> ob\<lparr>tracker_m := Some this\<rparr>)"
    "trks s' = (trks s1)(this \<mapsto> tk\<lparr>tracked_objects_m :=
        insert_end (container_t s) (tracked_objects_m tk) a\<rparr>)"
    "calls s' = calls s @
       [\<lparr>hook = Did_detach, receiver = x, argument = a, objs_seen = objs s1, trks_seen = trks s1\<rparr>,
        \<lparr>hook = Did_attach, receiver = this, argument = a, objs_seen = objs s', trks_seen = trks s'\<rparr>]"
    "container_t s' = container_t s" "one_to_one s'" .
  from one_to_one_distinct [OF inv r(1)] have dx: "distinct (tracked_objects_m xk)" .
  have n1: "\<not> is_attached s1 x (Some a)" using r(4) by (simp add: is_attached_def)
  have n2: "a \<notin> set (tracked_objects s1 x)"
    using r(5) dx by (simp add: tracked_objects_def)
  have n3: "a \<notin> set (tracked_objects s1 this)"
  proof
    assume "a \<in> set (tracked_objects s1 this)"
    with r(5) ne tk have "a \<in> set (tracked_objects_m tk)" by (simp add: tracked_objects_def)
    from one_to_one_member [OF inv tk this] ob att ne show False by simp
  qed
  have p1: "is_attached s' this (Some a)" using r(7) by (simp add: is_attached_def)
  have p2: "a \<in> set (tracked_objects s' this)"
    using r(8) by (simp add: tracked_objects_def set_insert_end)
  have p3: "\<not> is_attached s' u (Some a) \<and> a \<notin> set (tracked_objects s' u)" if "u \<noteq> this" for u
  proof
    show "\<not> is_attached s' u (Some a)" using r(7) that by (simp add: is_attached_def)
    show "a \<notin> set (tracked_objects s' u)"
    proof
      assume m: "a \<in> set (tracked_objects s' u)"
      then obtain uk where uk: "trks s' u = Some uk" "a \<in> set (tracked_objects_m uk)"
        by (cases "trks s' u") (auto simp: tracked_objects_def)
      from one_to_one_member [OF r(11) uk] r(7) that show False by simp
    qed
  qed
  from r(6,9,3) n1 n2 n3 p1 p2 p3
  show "\<exists>s1 s'. attach this (Some a) s = Inr (True, s')
            \<and> calls s' = calls s @
                 [\<lparr>hook = Did_detach, receiver = x, argument = a,
                   objs_seen = objs s1, trks_seen = trks s1\<rparr>,
                  \<lparr>hook = Did_attach, receiver = this, argument = a,
                   objs_seen = objs s', trks_seen = trks s'\<rparr>]
            \<and> detach x (Some a) s = Inr (True, s1)
            \<and> \<not> is_attached s1 x (Some a) \<and> a \<notin> set (tracked_objects s1 x)
            \<and> a \<notin> set (tracked_objects s1 this)
            \<and> is_attached s' this (Some a) \<and> a \<in> set (tracked_objects s' this)
            \<and> (\<forall>u. u \<noteq> this \<longrightarrow>
                   \<not> is_attached s' u (Some a) \<and> a \<notin> set (tracked_objects s' u))"
    by blast
qed

theorem attach_contract_witness:
  "one_to_one example_world
   \<and> attach 20 (Some 3) example_world = Inr (False, example_world)
   \<and> (\<exists>s'. attach 20 (Some 1) example_world = Inr (True, s')
         \<and> map hook (calls s') = [Did_detach, Did_attach]
         \<and> map receiver (calls s') = [10, 20]
         \<and> is_attached s' 20 (Some 1) \<and> \<not> is_attached s' 10 (Some 1)
         \<and> 1 \<notin> set (tracked_objects s' 10))"
proof -
  have a: "is_attached example_world 20 (Some 3)"
    by (simp add: is_attached_def example_world_def)
  have b: "objs example_world 1 = Some \<lparr>payload = 0, tracker_m = Some 10\<rparr>
      \<and> tracker_m \<lparr>payload = 0::int, tracker_m = Some 10\<rparr> = Some 10 \<and> (10::nat) \<noteq> 20
      \<and> trks example_world 20 = Some \<lparr>tracked_objects_m = [3]\<rparr>"
    by (simp add: example_world_def)
  have c: "calls example_world = []" by (simp add: example_world_def)
  from attach_contract [OF example_world_ok, of 20 "Some 3" 1
      "\<lparr>payload = 0, tracker_m = Some 10\<rparr>" 10 "\<lparr>tracked_objects_m = [3]\<rparr>"] a b c
  show ?thesis using example_world_ok by auto
qed

section \<open>detach\<close>

lemma detach_False_detached:
  assumes "detach t p s = Inr (False, s')"
  shows "is_detached s t p"
proof (rule ccontr)
  assume "\<not> is_detached s t p"
  with assms show False
    by (auto simp: detach_def split: sum.splits option.splits)
qed

lemma trackable_dtor_attached:
  assumes inv: "one_to_one s" and ob: "objs s a = Some ob" and att: "tracker_m ob = Some t"
  obtains tk s' where "trks s t = Some tk" "a \<in> set (tracked_objects_m tk)"
    "trackable_dtor a s = Inr s'"
    "objs s' = (objs s)(a := None)"
    "trks s' = (trks s)(t \<mapsto> tk\<lparr>tracked_objects_m := remove1 a (tracked_objects_m tk)\<rparr>)"
    "calls s' = calls s @ [\<lparr>hook = Did_detach, receiver = t, argument = a,
        objs_seen = (objs s)(a \<mapsto> ob\<lparr>tracker_m := None\<rparr>), trks_seen = trks s'\<rparr>]"
    "container_t s' = container_t s"
proof -
  from trackable_detach_attached [OF inv ob att] obtain tk s1 where
    r: "trks s t = Some tk" "a \<in> set (tracked_objects_m tk)"
    "trackable_detach a s = Inr (True, s1)"
    "objs s1 = (objs s)(a \<mapsto> ob\<lparr>tracker_m := None\<rparr>)"
    "trks s1 = (trks s)(t \<mapsto> tk\<lparr>tracked_objects_m := remove1 a (tracked_objects_m tk)\<rparr>)"
    "calls s1 = calls s @ [\<lparr>hook = Did_detach, receiver = t, argument = a,
        objs_seen = objs s1, trks_seen = trks s1\<rparr>]"
    "container_t s1 = container_t s" "one_to_one s1" .
  define s' where "s' = s1\<lparr>objs := (objs s1)(a := None)\<rparr>"
  have "trackable_dtor a s = Inr s'" using r(3) by (simp add: trackable_dtor_def s'_def)
  with r(1,2) show thesis
    by (rule that) (simp_all add: s'_def r)
qed

text \<open>
  What \<open>detach\<close> does in a world where membership is one-to-one: \<open>detach\<close> of a pointer that is null or not
  attached to this tracker returns \<open>false\<close> and leaves the world as it is, and \<open>detach\<close>
  returns \<open>false\<close> in no other case. For a trackable \<open>a\<close> attached to this tracker it returns
  \<open>true\<close>: \<open>a\<close> is erased from the container, whose size goes down by one, the \<open>tracker_\<close>
  of \<open>a\<close> is null, \<open>a\<close> and every other trackable still exist, and \<open>did_detach\<close> is called
  exactly once. Destroying a trackable attached to a tracker \<open>t\<close> calls \<open>did_detach\<close> of \<open>t\<close>
  exactly once and takes one element off the container of \<open>t\<close>.
\<close>

theorem detach_contract:
  assumes inv: "one_to_one s"
  shows "(is_detached s this p \<longrightarrow> detach this p s = Inr (False, s))
    \<and> (\<forall>s'. detach this p s = Inr (False, s') \<longrightarrow> is_detached s this p)
    \<and> is_detached s this None
    \<and> (is_attached s this (Some a) \<longrightarrow>
         (\<exists>ob s'. objs s a = Some ob \<and> detach this (Some a) s = Inr (True, s')
            \<and> tracked_objects s' this = remove1 a (tracked_objects s this)
            \<and> Suc (length (tracked_objects s' this)) = length (tracked_objects s this)
            \<and> a \<notin> set (tracked_objects s' this)
            \<and> objs s' = (objs s)(a \<mapsto> ob\<lparr>tracker_m := None\<rparr>)
            \<and> calls s' = calls s @ [\<lparr>hook = Did_detach, receiver = this, argument = a,
                  objs_seen = objs s', trks_seen = trks s'\<rparr>]))
    \<and> (objs s b = Some ob \<and> tracker_m ob = Some t \<longrightarrow>
         (\<exists>s' c. trackable_dtor b s = Inr s' \<and> objs s' = (objs s)(b := None)
            \<and> calls s' = calls s @ [c]
            \<and> hook c = Did_detach \<and> receiver c = t \<and> argument c = b
            \<and> Suc (length (tracked_objects s' t)) = length (tracked_objects s t)))"
proof (intro conjI impI allI)
  show "detach this p s = Inr (False, s)" if "is_detached s this p"
    using that by (rule detach_detached)
  show "is_detached s this p" if "detach this p s = Inr (False, s')" for s'
    using that by (rule detach_False_detached)
  show "is_detached s this None" by (simp add: is_detached_def is_attached_def)
next
  assume "is_attached s this (Some a)"
  then obtain ob where ob: "objs s a = Some ob" and att: "tracker_m ob = Some this"
    by (auto simp: is_attached_def split: option.splits)
  from detach_attached [OF inv ob att] obtain tk s' where
    r: "trks s this = Some tk" "a \<in> set (tracked_objects_m tk)"
    "detach this (Some a) s = Inr (True, s')"
    "objs s' = (objs s)(a \<mapsto> ob\<lparr>tracker_m := None\<rparr>)"
    "trks s' = (trks s)(this \<mapsto> tk\<lparr>tracked_objects_m := remove1 a (tracked_objects_m tk)\<rparr>)"
    "calls s' = calls s @ [\<lparr>hook = Did_detach, receiver = this, argument = a,
        objs_seen = objs s', trks_seen = trks s'\<rparr>]"
    "container_t s' = container_t s" "one_to_one s'" .
  from one_to_one_distinct [OF inv r(1)] have d: "distinct (tracked_objects_m tk)" .
  have 1: "tracked_objects s' this = remove1 a (tracked_objects s this)"
    using r(1,5) by (simp add: tracked_objects_def)
  have 2: "Suc (length (tracked_objects s' this)) = length (tracked_objects s this)"
    using r(1,2,5) by (simp add: tracked_objects_def length_remove1_mem)
  have 3: "a \<notin> set (tracked_objects s' this)"
    using r(1,5) d by (simp add: tracked_objects_def)
  from ob r(3) 1 2 3 r(4) r(6)
  show "\<exists>ob s'. objs s a = Some ob \<and> detach this (Some a) s = Inr (True, s')
            \<and> tracked_objects s' this = remove1 a (tracked_objects s this)
            \<and> Suc (length (tracked_objects s' this)) = length (tracked_objects s this)
            \<and> a \<notin> set (tracked_objects s' this)
            \<and> objs s' = (objs s)(a \<mapsto> ob\<lparr>tracker_m := None\<rparr>)
            \<and> calls s' = calls s @ [\<lparr>hook = Did_detach, receiver = this, argument = a,
                  objs_seen = objs s', trks_seen = trks s'\<rparr>]"
    by blast
next
  assume "objs s b = Some ob \<and> tracker_m ob = Some t"
  then have ob: "objs s b = Some ob" and att: "tracker_m ob = Some t" by simp_all
  from trackable_dtor_attached [OF inv ob att] obtain tk s' where
    r: "trks s t = Some tk" "b \<in> set (tracked_objects_m tk)"
    "trackable_dtor b s = Inr s'"
    "objs s' = (objs s)(b := None)"
    "trks s' = (trks s)(t \<mapsto> tk\<lparr>tracked_objects_m := remove1 b (tracked_objects_m tk)\<rparr>)"
    "calls s' = calls s @ [\<lparr>hook = Did_detach, receiver = t, argument = b,
        objs_seen = (objs s)(b \<mapsto> ob\<lparr>tracker_m := None\<rparr>), trks_seen = trks s'\<rparr>]"
    "container_t s' = container_t s" .
  have "Suc (length (tracked_objects s' t)) = length (tracked_objects s t)"
    using r(1,2,5) by (simp add: tracked_objects_def length_remove1_mem)
  with r(3,4,6)
  show "\<exists>s' c. trackable_dtor b s = Inr s' \<and> objs s' = (objs s)(b := None)
            \<and> calls s' = calls s @ [c]
            \<and> hook c = Did_detach \<and> receiver c = t \<and> argument c = b
            \<and> Suc (length (tracked_objects s' t)) = length (tracked_objects s t)"
    by simp
qed

theorem detach_contract_witness:
  "one_to_one example_world
   \<and> detach 10 (Some 3) example_world = Inr (False, example_world)
   \<and> (\<exists>s'. detach 10 (Some 1) example_world = Inr (True, s')
         \<and> tracked_objects s' 10 = [2] \<and> map hook (calls s') = [Did_detach]
         \<and> objs s' 1 = Some \<lparr>payload = 0, tracker_m = None\<rparr>)
   \<and> (\<exists>s'. trackable_dtor 3 example_world = Inr s' \<and> objs s' 3 = None
         \<and> length (tracked_objects s' 20) = 0 \<and> map hook (calls s') = [Did_detach]
         \<and> map receiver (calls s') = [20])"
proof -
  have a: "is_detached example_world 10 (Some 3)" "is_attached example_world 10 (Some 1)"
    by (simp_all add: is_detached_def is_attached_def example_world_def)
  have b: "objs example_world 3 = Some \<lparr>payload = 7, tracker_m = Some 20\<rparr>
      \<and> tracker_m \<lparr>payload = 7::int, tracker_m = Some 20\<rparr> = Some 20"
    by (simp add: example_world_def)
  have c: "calls example_world = []" "tracked_objects example_world 10 = [1, 2]"
    "tracked_objects example_world 20 = [3]"
    "objs example_world 1 = Some \<lparr>payload = 0, tracker_m = Some 10\<rparr>"
    by (simp_all add: example_world_def tracked_objects_def)
  from detach_contract [OF example_world_ok, of 10 "Some 3" 1 3
      "\<lparr>payload = 7, tracker_m = Some 20\<rparr>" 20] a b c
  show ?thesis using example_world_ok by auto
qed

section \<open>detach_all\<close>

lemma detach_all_loop_ok:
  assumes "set xs \<subseteq> dom (objs s)"
  shows "\<exists>s' cs. detach_all_loop t xs s = Inr s'
     \<and> trks s' = trks s \<and> container_t s' = container_t s
     \<and> objs s' = (\<lambda>a. if a \<in> set xs then map_option (\<lambda>ob. ob\<lparr>tracker_m := None\<rparr>) (objs s a)
                        else objs s a)
     \<and> calls s' = calls s @ cs \<and> map argument cs = xs
     \<and> (\<forall>c \<in> set cs. hook c = Did_detach \<and> receiver c = t \<and> trks_seen c = trks s
            \<and> dom (objs_seen c) = dom (objs s)
            \<and> (\<exists>ob. objs_seen c (argument c) = Some ob \<and> tracker_m ob = None))"
  using assms
proof (induction xs arbitrary: s)
  case Nil
  then show ?case by simp
next
  case (Cons a as)
  from Cons.prems obtain ob where ob: "objs s a = Some ob" by auto
  define s1 where "s1 = static_dispatch Did_detach t a
     (s\<lparr>objs := (objs s)(a \<mapsto> ob\<lparr>tracker_m := None\<rparr>)\<rparr>)"
  have o1: "objs s1 = (objs s)(a \<mapsto> ob\<lparr>tracker_m := None\<rparr>)"
    and t1: "trks s1 = trks s" and k1: "container_t s1 = container_t s"
    and c1: "calls s1 = calls s @ [\<lparr>hook = Did_detach, receiver = t, argument = a,
        objs_seen = (objs s)(a \<mapsto> ob\<lparr>tracker_m := None\<rparr>), trks_seen = trks s\<rparr>]"
    by (simp_all add: s1_def static_dispatch_def)
  have d1: "dom (objs s1) = dom (objs s)" using o1 ob by auto
  with Cons.prems have "set as \<subseteq> dom (objs s1)" by simp
  from Cons.IH [OF this] obtain s' cs where
    r: "detach_all_loop t as s1 = Inr s'" "trks s' = trks s1" "container_t s' = container_t s1"
    "objs s' = (\<lambda>b. if b \<in> set as then map_option (\<lambda>ob. ob\<lparr>tracker_m := None\<rparr>) (objs s1 b)
                        else objs s1 b)"
    "calls s' = calls s1 @ cs" "map argument cs = as"
    "\<forall>c \<in> set cs. hook c = Did_detach \<and> receiver c = t \<and> trks_seen c = trks s1
            \<and> dom (objs_seen c) = dom (objs s1)
            \<and> (\<exists>ob. objs_seen c (argument c) = Some ob \<and> tracker_m ob = None)"
    by blast
  let ?c = "\<lparr>hook = Did_detach, receiver = t, argument = a,
        objs_seen = (objs s)(a \<mapsto> ob\<lparr>tracker_m := None\<rparr>), trks_seen = trks s\<rparr>"
  have 1: "detach_all_loop t (a # as) s = Inr s'"
    using ob r(1) by (simp add: s1_def)
  have 2: "objs s' = (\<lambda>b. if b \<in> set (a # as)
              then map_option (\<lambda>ob. ob\<lparr>tracker_m := None\<rparr>) (objs s b) else objs s b)"
    unfolding r(4) o1 using ob by (auto simp: fun_eq_iff)
  have 3: "calls s' = calls s @ (?c # cs)" using r(5) c1 by simp
  have 4: "map argument (?c # cs) = a # as" using r(6) by simp
  have 5: "\<forall>c \<in> set (?c # cs). hook c = Did_detach \<and> receiver c = t \<and> trks_seen c = trks s
            \<and> dom (objs_seen c) = dom (objs s)
            \<and> (\<exists>ob. objs_seen c (argument c) = Some ob \<and> tracker_m ob = None)"
    using r(7) t1 d1 ob by auto
  from 1 2 3 4 5 r(2,3) t1 k1 show ?case by (metis (no_types, lifting))
qed

lemma one_to_one_clear:
  assumes inv: "one_to_one s" and tk: "trks s t = Some tk"
    and o': "objs s' = (\<lambda>a. if a \<in> set (tracked_objects_m tk)
                then map_option (\<lambda>ob. ob\<lparr>tracker_m := None\<rparr>) (objs s a) else objs s a)"
    and t': "trks s' = (trks s)(t \<mapsto> tk\<lparr>tracked_objects_m := []\<rparr>)"
  shows "one_to_one s'"
  unfolding one_to_one_iff
proof (rule conjI; intro allI impI)
  fix u uk assume uk: "trks s' u = Some uk"
  show "distinct (tracked_objects_m uk) \<and>
        (\<forall>b \<in> set (tracked_objects_m uk). \<exists>ob. objs s' b = Some ob \<and> tracker_m ob = Some u)"
  proof (cases "u = t")
    case True
    with uk t' show ?thesis by auto
  next
    case False
    with uk t' have uk0: "trks s u = Some uk" by auto
    have "\<exists>ob. objs s' b = Some ob \<and> tracker_m ob = Some u"
      if "b \<in> set (tracked_objects_m uk)" for b
    proof -
      from one_to_one_member [OF inv uk0 that] obtain obb
        where obb: "objs s b = Some obb" "tracker_m obb = Some u" by blast
      have "b \<notin> set (tracked_objects_m tk)"
      proof
        assume "b \<in> set (tracked_objects_m tk)"
        from one_to_one_member [OF inv tk this] obb False show False by simp
      qed
      with obb o' show ?thesis by simp
    qed
    with one_to_one_distinct [OF inv uk0] show ?thesis by simp
  qed
next
  fix b obb u assume b: "objs s' b = Some obb" "tracker_m obb = Some u"
  have nb: "b \<notin> set (tracked_objects_m tk)"
  proof
    assume "b \<in> set (tracked_objects_m tk)"
    with b o' show False by auto
  qed
  with b o' have b0: "objs s b = Some obb" by simp
  from one_to_one_back [OF inv b0 b(2)] obtain uk
    where uk: "trks s u = Some uk" "b \<in> set (tracked_objects_m uk)" by blast
  with nb tk have "u \<noteq> t" by auto
  with uk t' show "\<exists>tk. trks s' u = Some tk \<and> b \<in> set (tracked_objects_m tk)" by simp
qed

lemma detach_all_ok:
  assumes inv: "one_to_one s" and tk: "trks s t = Some tk"
  obtains s' cs where "detach_all t s = Inr s'"
    "trks s' = (trks s)(t \<mapsto> tk\<lparr>tracked_objects_m := []\<rparr>)"
    "container_t s' = container_t s"
    "objs s' = (\<lambda>a. if a \<in> set (tracked_objects_m tk)
                then map_option (\<lambda>ob. ob\<lparr>tracker_m := None\<rparr>) (objs s a) else objs s a)"
    "calls s' = calls s @ cs" "map argument cs = tracked_objects_m tk"
    "\<forall>c \<in> set cs. hook c = Did_detach \<and> receiver c = t \<and> trks_seen c = trks s
            \<and> dom (objs_seen c) = dom (objs s)
            \<and> (\<exists>ob. objs_seen c (argument c) = Some ob \<and> tracker_m ob = None)"
    "one_to_one s'"
proof -
  have "set (tracked_objects_m tk) \<subseteq> dom (objs s)"
    using one_to_one_member [OF inv tk] by auto
  from detach_all_loop_ok [OF this, of t] obtain s1 cs where
    r: "detach_all_loop t (tracked_objects_m tk) s = Inr s1"
    "trks s1 = trks s" "container_t s1 = container_t s"
    "objs s1 = (\<lambda>a. if a \<in> set (tracked_objects_m tk)
                then map_option (\<lambda>ob. ob\<lparr>tracker_m := None\<rparr>) (objs s a) else objs s a)"
    "calls s1 = calls s @ cs" "map argument cs = tracked_objects_m tk"
    "\<forall>c \<in> set cs. hook c = Did_detach \<and> receiver c = t \<and> trks_seen c = trks s
            \<and> dom (objs_seen c) = dom (objs s)
            \<and> (\<exists>ob. objs_seen c (argument c) = Some ob \<and> tracker_m ob = None)"
    by blast
  define s' where "s' = s1\<lparr>trks := (trks s1)(t \<mapsto> tk\<lparr>tracked_objects_m := []\<rparr>)\<rparr>"
  have 1: "detach_all t s = Inr s'" using tk r(1) by (simp add: detach_all_def s'_def)
  have 2: "trks s' = (trks s)(t \<mapsto> tk\<lparr>tracked_objects_m := []\<rparr>)"
    using r(2) by (simp add: s'_def)
  have 3: "container_t s' = container_t s" using r(3) by (simp add: s'_def)
  have 4: "objs s' = (\<lambda>a. if a \<in> set (tracked_objects_m tk)
                then map_option (\<lambda>ob. ob\<lparr>tracker_m := None\<rparr>) (objs s a) else objs s a)"
    using r(4) by (simp add: s'_def)
  have 5: "calls s' = calls s @ cs" using r(5) by (simp add: s'_def)
  have 6: "one_to_one s'" using inv tk 4 2 by (rule one_to_one_clear)
  from 1 2 3 4 5 r(6,7) 6 show thesis by (rule that)
qed


lemma tracker_dtor_ok:
  assumes "detach_all t s = Inr s'"
  shows "tracker_dtor t s = Inr (s'\<lparr>trks := (trks s')(t := None)\<rparr>)"
  using assms by (simp add: tracker_dtor_def)

text \<open>
  What \<open>detach_all\<close> does in a world where membership is one-to-one: on a tracker with the members
  \<open>tracked_objects s t\<close> returns, having called \<open>did_detach\<close> of that tracker once for each
  member, in iteration order, and nothing else; every one of these calls sees the container
  as it was before \<open>detach_all\<close>, with all its elements. Afterwards the container is empty,
  the same trackables exist as before, and each former member is detached. The destructor
  of the tracker makes the same calls, leaves the trackables as \<open>detach_all\<close> leaves them,
  and ends the tracker.
\<close>

theorem detach_all_contract:
  assumes inv: "one_to_one s" and tk: "trks s t = Some tk"
  shows "\<exists>s' cs. detach_all t s = Inr s'
     \<and> calls s' = calls s @ cs
     \<and> map argument cs = tracked_objects s t \<and> distinct (tracked_objects s t)
     \<and> (\<forall>c \<in> set cs. hook c = Did_detach \<and> receiver c = t
            \<and> tracked_objects (world_seen s c) t = tracked_objects s t
            \<and> length (tracked_objects (world_seen s c) t) = length (tracked_objects s t))
     \<and> tracked_objects s' t = []
     \<and> dom (objs s') = dom (objs s)
     \<and> (\<forall>a \<in> set (tracked_objects s t).
           \<exists>ob. objs s' a = Some ob \<and> trackable_is_detached ob)
     \<and> (\<exists>s''. tracker_dtor t s = Inr s'' \<and> calls s'' = calls s' \<and> objs s'' = objs s'
            \<and> t \<notin> dom (trks s''))"
proof -
  from detach_all_ok [OF inv tk] obtain s' cs where
    r: "detach_all t s = Inr s'"
    "trks s' = (trks s)(t \<mapsto> tk\<lparr>tracked_objects_m := []\<rparr>)"
    "container_t s' = container_t s"
    "objs s' = (\<lambda>a. if a \<in> set (tracked_objects_m tk)
                then map_option (\<lambda>ob. ob\<lparr>tracker_m := None\<rparr>) (objs s a) else objs s a)"
    "calls s' = calls s @ cs" "map argument cs = tracked_objects_m tk"
    "\<forall>c \<in> set cs. hook c = Did_detach \<and> receiver c = t \<and> trks_seen c = trks s
            \<and> dom (objs_seen c) = dom (objs s)
            \<and> (\<exists>ob. objs_seen c (argument c) = Some ob \<and> tracker_m ob = None)"
    "one_to_one s'" .
  have xs: "tracked_objects s t = tracked_objects_m tk" using tk by (simp add: tracked_objects_def)
  have 1: "map argument cs = tracked_objects s t" using r(6) xs by simp
  have 2: "distinct (tracked_objects s t)" using one_to_one_distinct [OF inv tk] xs by simp
  have 3: "\<forall>c \<in> set cs. hook c = Did_detach \<and> receiver c = t
            \<and> tracked_objects (world_seen s c) t = tracked_objects s t
            \<and> length (tracked_objects (world_seen s c) t) = length (tracked_objects s t)"
    using r(7) by (simp add: tracked_objects_def world_seen_def)
  have 4: "tracked_objects s' t = []" using r(2) by (simp add: tracked_objects_def)
  have 5: "dom (objs s') = dom (objs s)"
    unfolding r(4) by (auto split: if_splits)
  have 6: "\<forall>a \<in> set (tracked_objects s t).
           \<exists>ob. objs s' a = Some ob \<and> trackable_is_detached ob"
  proof
    fix a assume a: "a \<in> set (tracked_objects s t)"
    with xs have m: "a \<in> set (tracked_objects_m tk)" by simp
    from one_to_one_member [OF inv tk m] obtain ob where "objs s a = Some ob" by blast
    with m r(4) show "\<exists>ob. objs s' a = Some ob \<and> trackable_is_detached ob"
      by (simp add: trackable_is_detached_def trackable_is_attached_def my_tracker_def)
  qed
  have 7: "\<exists>s''. tracker_dtor t s = Inr s'' \<and> calls s'' = calls s' \<and> objs s'' = objs s'
            \<and> t \<notin> dom (trks s'')"
    using tracker_dtor_ok [OF r(1)] by simp
  from r(1,5) 1 2 3 4 5 6 7 show ?thesis by blast
qed

theorem detach_all_contract_witness:
  "one_to_one example_world
   \<and> trks example_world 10 = Some \<lparr>tracked_objects_m = [1, 2]\<rparr>
   \<and> (\<exists>s'. detach_all 10 example_world = Inr s'
         \<and> map argument (calls s') = [1, 2]
         \<and> tracked_objects s' 10 = []
         \<and> dom (objs s') = {1, 2, 3, 4})"
proof -
  have a: "trks example_world 10 = Some \<lparr>tracked_objects_m = [1, 2]\<rparr>"
    by (simp add: example_world_def)
  have c: "calls example_world = []" "tracked_objects example_world 10 = [1, 2]"
    "dom (objs example_world) = {1, 2, 3, 4}"
    by (auto simp: example_world_def tracked_objects_def)
  from detach_all_contract [OF example_world_ok a] c a
  show ?thesis using example_world_ok by auto
qed

text \<open>
  C10. In a world where membership is one-to-one, every call of \<open>did_detach\<close> that
  \<open>detach_all\<close> (and so the destructor of the tracker) makes finds the member it is called
  for already detached, with a null \<open>tracker_\<close>, while the container of the tracker still
  holds that member and still has its size from before \<open>detach_all\<close>: what the callee sees
  is not a one-to-one membership.
\<close>

theorem detach_all_hook_sees_member_detached:
  assumes inv: "one_to_one s" and tk: "trks s t = Some tk"
  shows "\<exists>s' cs. detach_all t s = Inr s'
     \<and> calls s' = calls s @ cs
     \<and> map argument cs = tracked_objects s t
     \<and> (\<forall>c \<in> set cs. hook c = Did_detach \<and> receiver c = t
            \<and> (\<exists>ob. objs (world_seen s c) (argument c) = Some ob \<and> trackable_is_detached ob)
            \<and> \<not> is_attached (world_seen s c) t (Some (argument c))
            \<and> argument c \<in> set (tracked_objects (world_seen s c) t)
            \<and> length (tracked_objects (world_seen s c) t) = length (tracked_objects s t)
            \<and> \<not> one_to_one (world_seen s c))
     \<and> (\<exists>s''. tracker_dtor t s = Inr s'' \<and> calls s'' = calls s')"
proof -
  from detach_all_ok [OF inv tk] obtain s' cs where
    r: "detach_all t s = Inr s'"
    "trks s' = (trks s)(t \<mapsto> tk\<lparr>tracked_objects_m := []\<rparr>)"
    "container_t s' = container_t s"
    "objs s' = (\<lambda>a. if a \<in> set (tracked_objects_m tk)
                then map_option (\<lambda>ob. ob\<lparr>tracker_m := None\<rparr>) (objs s a) else objs s a)"
    "calls s' = calls s @ cs" "map argument cs = tracked_objects_m tk"
    "\<forall>c \<in> set cs. hook c = Did_detach \<and> receiver c = t \<and> trks_seen c = trks s
            \<and> dom (objs_seen c) = dom (objs s)
            \<and> (\<exists>ob. objs_seen c (argument c) = Some ob \<and> tracker_m ob = None)"
    "one_to_one s'" .
  have xs: "tracked_objects s t = tracked_objects_m tk" using tk by (simp add: tracked_objects_def)
  have 1: "map argument cs = tracked_objects s t" using r(6) xs by simp
  have 2: "hook c = Did_detach \<and> receiver c = t
            \<and> (\<exists>ob. objs (world_seen s c) (argument c) = Some ob \<and> trackable_is_detached ob)
            \<and> \<not> is_attached (world_seen s c) t (Some (argument c))
            \<and> argument c \<in> set (tracked_objects (world_seen s c) t)
            \<and> length (tracked_objects (world_seen s c) t) = length (tracked_objects s t)
            \<and> \<not> one_to_one (world_seen s c)" if c: "c \<in> set cs" for c
  proof -
    from r(7) c obtain ob where h: "hook c = Did_detach" "receiver c = t" "trks_seen c = trks s"
      "objs_seen c (argument c) = Some ob" "tracker_m ob = None" by blast
    from c have "argument c \<in> set (map argument cs)" by simp
    with r(6) have m: "argument c \<in> set (tracked_objects_m tk)" by simp
    have tkc: "trks (world_seen s c) t = Some tk" using h(3) tk by (simp add: world_seen_def)
    have obc: "objs (world_seen s c) (argument c) = Some ob" using h(4) by (simp add: world_seen_def)
    have a: "\<exists>ob. objs (world_seen s c) (argument c) = Some ob \<and> trackable_is_detached ob"
      using obc h(5)
      by (simp add: trackable_is_detached_def trackable_is_attached_def my_tracker_def)
    have b: "\<not> is_attached (world_seen s c) t (Some (argument c))"
      using obc h(5) by (simp add: is_attached_def)
    have d: "argument c \<in> set (tracked_objects (world_seen s c) t)"
      using tkc m by (simp add: tracked_objects_def)
    have e: "length (tracked_objects (world_seen s c) t) = length (tracked_objects s t)"
      using tkc tk by (simp add: tracked_objects_def)
    have f: "\<not> one_to_one (world_seen s c)"
    proof
      assume "one_to_one (world_seen s c)"
      from one_to_one_member [OF this tkc m] obc h(5) show False by simp
    qed
    from h(1,2) a b d e f show ?thesis by blast
  qed
  have 3: "\<exists>s''. tracker_dtor t s = Inr s'' \<and> calls s'' = calls s'"
    using tracker_dtor_ok [OF r(1)] by simp
  from r(1,5) 1 2 3 show ?thesis by blast
qed

theorem detach_all_hook_sees_member_detached_witness:
  "one_to_one example_world
   \<and> trks example_world 20 = Some \<lparr>tracked_objects_m = [3]\<rparr>
   \<and> (\<exists>s' c. detach_all 20 example_world = Inr s' \<and> calls s' = [c] \<and> argument c = 3
         \<and> \<not> is_attached (world_seen example_world c) 20 (Some 3)
         \<and> tracked_objects (world_seen example_world c) 20 = [3]
         \<and> \<not> one_to_one (world_seen example_world c))"
proof -
  have a: "trks example_world 20 = Some \<lparr>tracked_objects_m = [3]\<rparr>"
    by (simp add: example_world_def)
  have c: "calls example_world = []" "tracked_objects example_world 20 = [3]"
    by (auto simp: example_world_def tracked_objects_def)
  from detach_all_hook_sees_member_detached [OF example_world_ok a] obtain s' cs where
    r: "detach_all 20 example_world = Inr s'" "calls s' = calls example_world @ cs"
    "map argument cs = tracked_objects example_world 20"
    "\<forall>c \<in> set cs. hook c = Did_detach \<and> receiver c = 20
            \<and> (\<exists>ob. objs (world_seen example_world c) (argument c) = Some ob \<and> trackable_is_detached ob)
            \<and> \<not> is_attached (world_seen example_world c) 20 (Some (argument c))
            \<and> argument c \<in> set (tracked_objects (world_seen example_world c) 20)
            \<and> length (tracked_objects (world_seen example_world c) 20)
                = length (tracked_objects example_world 20)
            \<and> \<not> one_to_one (world_seen example_world c)"
    by blast
  from r(3) c(2) obtain c where cs: "cs = [c]" "argument c = 3" by auto
  with r(4) c(2) have
    "\<not> is_attached (world_seen example_world c) 20 (Some 3)"
    "3 \<in> set (tracked_objects (world_seen example_world c) 20)"
    "length (tracked_objects (world_seen example_world c) 20) = 1"
    "\<not> one_to_one (world_seen example_world c)" by auto
  moreover from this(2,3) have "tracked_objects (world_seen example_world c) 20 = [3]"
    by (cases "tracked_objects (world_seen example_world c) 20") auto
  ultimately show ?thesis using r(1,2) cs c(1) a example_world_ok by auto
qed

section \<open>Moving a tracker\<close>

lemma rewire_loop_ok:
  assumes "set xs \<subseteq> dom (objs s)"
  shows "\<exists>s'. rewire_loop t xs s = Inr s'
     \<and> trks s' = trks s \<and> container_t s' = container_t s \<and> calls s' = calls s
     \<and> objs s' = (\<lambda>a. if a \<in> set xs then map_option (\<lambda>ob. ob\<lparr>tracker_m := Some t\<rparr>) (objs s a)
                        else objs s a)"
  using assms
proof (induction xs arbitrary: s)
  case Nil
  then show ?case by simp
next
  case (Cons a as)
  from Cons.prems obtain ob where ob: "objs s a = Some ob" by auto
  define s1 where "s1 = s\<lparr>objs := (objs s)(a \<mapsto> ob\<lparr>tracker_m := Some t\<rparr>)\<rparr>"
  have o1: "objs s1 = (objs s)(a \<mapsto> ob\<lparr>tracker_m := Some t\<rparr>)"
    and t1: "trks s1 = trks s" and k1: "container_t s1 = container_t s"
    and c1: "calls s1 = calls s"
    by (simp_all add: s1_def)
  have "dom (objs s1) = dom (objs s)" using o1 ob by auto
  with Cons.prems have "set as \<subseteq> dom (objs s1)" by simp
  from Cons.IH [OF this] obtain s' where
    r: "rewire_loop t as s1 = Inr s'" "trks s' = trks s1" "container_t s' = container_t s1"
    "calls s' = calls s1"
    "objs s' = (\<lambda>b. if b \<in> set as then map_option (\<lambda>ob. ob\<lparr>tracker_m := Some t\<rparr>) (objs s1 b)
                        else objs s1 b)"
    by blast
  have 1: "rewire_loop t (a # as) s = Inr s'"
    using ob r(1) by (simp add: s1_def)
  have 2: "objs s' = (\<lambda>b. if b \<in> set (a # as)
              then map_option (\<lambda>ob. ob\<lparr>tracker_m := Some t\<rparr>) (objs s b) else objs s b)"
    unfolding r(5) o1 using ob by (auto simp: fun_eq_iff)
  from 1 2 r(2,3,4) t1 k1 c1 show ?case by simp
qed

lemma one_to_one_move:
  assumes inv: "one_to_one s" and r: "trks s rhs = Some r" and ne: "this \<noteq> rhs"
    and empty: "\<And>lk. trks s this = Some lk \<Longrightarrow> tracked_objects_m lk = []"
    and l': "tracked_objects_m l' = tracked_objects_m r"
    and o': "objs s' = (\<lambda>a. if a \<in> set (tracked_objects_m r)
                then map_option (\<lambda>ob. ob\<lparr>tracker_m := Some this\<rparr>) (objs s a) else objs s a)"
    and t': "trks s' = (trks s)(this \<mapsto> l', rhs \<mapsto> r\<lparr>tracked_objects_m := []\<rparr>)"
  shows "one_to_one s'"
  unfolding one_to_one_iff
proof (rule conjI; intro allI impI)
  fix u uk assume uk: "trks s' u = Some uk"
  show "distinct (tracked_objects_m uk) \<and>
        (\<forall>b \<in> set (tracked_objects_m uk). \<exists>ob. objs s' b = Some ob \<and> tracker_m ob = Some u)"
  proof (cases "u = rhs")
    case True
    with uk t' show ?thesis by auto
  next
    case nr: False
    show ?thesis
    proof (cases "u = this")
      case True
      with uk t' ne have uk_eq: "tracked_objects_m uk = tracked_objects_m r" using l' by auto
      have "\<exists>ob. objs s' b = Some ob \<and> tracker_m ob = Some u"
        if "b \<in> set (tracked_objects_m uk)" for b
      proof -
        from that uk_eq have m: "b \<in> set (tracked_objects_m r)" by simp
        from one_to_one_member [OF inv r m] obtain obb where "objs s b = Some obb" by blast
        with m o' True show ?thesis by simp
      qed
      with one_to_one_distinct [OF inv r] uk_eq show ?thesis by simp
    next
      case False
      with nr uk t' have uk0: "trks s u = Some uk" by auto
      have "\<exists>ob. objs s' b = Some ob \<and> tracker_m ob = Some u"
        if "b \<in> set (tracked_objects_m uk)" for b
      proof -
        from one_to_one_member [OF inv uk0 that] obtain obb
          where obb: "objs s b = Some obb" "tracker_m obb = Some u" by blast
        have "b \<notin> set (tracked_objects_m r)"
        proof
          assume "b \<in> set (tracked_objects_m r)"
          from one_to_one_member [OF inv r this] obb nr show False by simp
        qed
        with obb o' show ?thesis by simp
      qed
      with one_to_one_distinct [OF inv uk0] show ?thesis by simp
    qed
  qed
next
  fix b obb u assume b: "objs s' b = Some obb" "tracker_m obb = Some u"
  show "\<exists>tk. trks s' u = Some tk \<and> b \<in> set (tracked_objects_m tk)"
  proof (cases "b \<in> set (tracked_objects_m r)")
    case True
    with b o' have "u = this" by auto
    with True t' ne l' show ?thesis by simp
  next
    case False
    with b o' have b0: "objs s b = Some obb" by simp
    from one_to_one_back [OF inv b0 b(2)] obtain uk
      where uk: "trks s u = Some uk" "b \<in> set (tracked_objects_m uk)" by blast
    with False r have "u \<noteq> rhs" by auto
    moreover from uk empty have "u \<noteq> this" by auto
    ultimately show ?thesis using uk t' by simp
  qed
qed

lemma tracker_move_ctor_ok:
  assumes inv: "one_to_one s" and r: "trks s rhs = Some r" and fresh: "this \<notin> dom (trks s)"
  obtains s' where "tracker_move_ctor this rhs s = Inr s'"
    "trks s' = (trks s)(this \<mapsto> \<lparr>tracked_objects_m = tracked_objects_m r\<rparr>,
                         rhs \<mapsto> r\<lparr>tracked_objects_m := []\<rparr>)"
    "objs s' = (\<lambda>a. if a \<in> set (tracked_objects_m r)
                then map_option (\<lambda>ob. ob\<lparr>tracker_m := Some this\<rparr>) (objs s a) else objs s a)"
    "calls s' = calls s" "container_t s' = container_t s" "one_to_one s'"
proof -
  define s1 where "s1 = s\<lparr>trks := (trks s)(this \<mapsto> \<lparr>tracked_objects_m = tracked_objects_m r\<rparr>,
                         rhs \<mapsto> r\<lparr>tracked_objects_m := []\<rparr>)\<rparr>"
  have "set (tracked_objects_m r) \<subseteq> dom (objs s1)"
    using one_to_one_member [OF inv r] by (auto simp: s1_def)
  from rewire_loop_ok [OF this, of this] obtain s' where
    l: "rewire_loop this (tracked_objects_m r) s1 = Inr s'"
    "trks s' = trks s1" "container_t s' = container_t s1" "calls s' = calls s1"
    "objs s' = (\<lambda>a. if a \<in> set (tracked_objects_m r)
        then map_option (\<lambda>ob. ob\<lparr>tracker_m := Some this\<rparr>) (objs s1 a) else objs s1 a)"
    by blast
  have 1: "tracker_move_ctor this rhs s = Inr s'"
    using fresh r l(1) by (simp add: tracker_move_ctor_def s1_def)
  have 2: "trks s' = (trks s)(this \<mapsto> \<lparr>tracked_objects_m = tracked_objects_m r\<rparr>,
                         rhs \<mapsto> r\<lparr>tracked_objects_m := []\<rparr>)"
    using l(2) by (simp add: s1_def)
  have 3: "objs s' = (\<lambda>a. if a \<in> set (tracked_objects_m r)
                then map_option (\<lambda>ob. ob\<lparr>tracker_m := Some this\<rparr>) (objs s a) else objs s a)"
  proof -
    have e: "objs s1 = objs s" by (simp add: s1_def)
    from l(5) show ?thesis unfolding e .
  qed
  have 4: "calls s' = calls s" "container_t s' = container_t s"
    using l(3,4) by (simp_all add: s1_def)
  from fresh r have ne: "this \<noteq> rhs" by auto
  have 5: "one_to_one s'"
    using inv r ne _ _ 3 2
  proof (rule one_to_one_move)
    show "tracked_objects_m lk = []" if "trks s this = Some lk" for lk
      using that fresh by auto
  qed simp
  from 1 2 3 4 5 show thesis by (rule that)
qed


lemma tracker_move_assign_ok:
  assumes inv: "one_to_one s" and r: "trks s rhs = Some r" and l: "trks s this = Some l"
    and ne: "this \<noteq> rhs"
  obtains s1 cs s' where "detach_all this s = Inr s1"
    "objs s1 = (\<lambda>a. if a \<in> set (tracked_objects_m l)
                then map_option (\<lambda>ob. ob\<lparr>tracker_m := None\<rparr>) (objs s a) else objs s a)"
    "calls s1 = calls s @ cs" "map argument cs = tracked_objects_m l"
    "\<forall>c \<in> set cs. hook c = Did_detach \<and> receiver c = this \<and> trks_seen c = trks s
            \<and> dom (objs_seen c) = dom (objs s)
            \<and> (\<exists>ob. objs_seen c (argument c) = Some ob \<and> tracker_m ob = None)"
    "tracker_move_assign this rhs s = Inr s'"
    "trks s' = (trks s)(this \<mapsto> l\<lparr>tracked_objects_m := tracked_objects_m r\<rparr>,
                         rhs \<mapsto> r\<lparr>tracked_objects_m := []\<rparr>)"
    "objs s' = (\<lambda>a. if a \<in> set (tracked_objects_m r)
                then map_option (\<lambda>ob. ob\<lparr>tracker_m := Some this\<rparr>) (objs s1 a) else objs s1 a)"
    "calls s' = calls s1" "container_t s' = container_t s" "one_to_one s'"
proof -
  from detach_all_ok [OF inv l] obtain s1 cs where
    d: "detach_all this s = Inr s1"
    "trks s1 = (trks s)(this \<mapsto> l\<lparr>tracked_objects_m := []\<rparr>)"
    "container_t s1 = container_t s"
    "objs s1 = (\<lambda>a. if a \<in> set (tracked_objects_m l)
                then map_option (\<lambda>ob. ob\<lparr>tracker_m := None\<rparr>) (objs s a) else objs s a)"
    "calls s1 = calls s @ cs" "map argument cs = tracked_objects_m l"
    "\<forall>c \<in> set cs. hook c = Did_detach \<and> receiver c = this \<and> trks_seen c = trks s
            \<and> dom (objs_seen c) = dom (objs s)
            \<and> (\<exists>ob. objs_seen c (argument c) = Some ob \<and> tracker_m ob = None)"
    "one_to_one s1" .
  have l1: "trks s1 this = Some (l\<lparr>tracked_objects_m := []\<rparr>)" using d(2) by simp
  have r1: "trks s1 rhs = Some r" using d(2) r ne by simp
  define s2 where "s2 = s1\<lparr>trks := (trks s1)
      (this \<mapsto> l\<lparr>tracked_objects_m := []\<rparr>\<lparr>tracked_objects_m := tracked_objects_m r\<rparr>,
       rhs \<mapsto> r\<lparr>tracked_objects_m := []\<rparr>)\<rparr>"
  have e: "objs s2 = objs s1" by (simp add: s2_def)
  have "set (tracked_objects_m r) \<subseteq> dom (objs s2)"
    using one_to_one_member [OF d(8) r1] e by auto
  from rewire_loop_ok [OF this, of this] obtain s' where
    w: "rewire_loop this (tracked_objects_m r) s2 = Inr s'"
    "trks s' = trks s2" "container_t s' = container_t s2" "calls s' = calls s2"
    "objs s' = (\<lambda>a. if a \<in> set (tracked_objects_m r)
        then map_option (\<lambda>ob. ob\<lparr>tracker_m := Some this\<rparr>) (objs s2 a) else objs s2 a)"
    by blast
  have 1: "tracker_move_assign this rhs s = Inr s'"
    using ne d(1) l1 r1 w(1) by (simp add: tracker_move_assign_def s2_def)
  have 2: "trks s' = (trks s)(this \<mapsto> l\<lparr>tracked_objects_m := tracked_objects_m r\<rparr>,
                         rhs \<mapsto> r\<lparr>tracked_objects_m := []\<rparr>)"
    using w(2) d(2) by (simp add: s2_def)
  have t1': "trks s' = (trks s1)(this \<mapsto> l\<lparr>tracked_objects_m := tracked_objects_m r\<rparr>,
                         rhs \<mapsto> r\<lparr>tracked_objects_m := []\<rparr>)"
    using w(2) by (simp add: s2_def)
  have 3: "objs s' = (\<lambda>a. if a \<in> set (tracked_objects_m r)
                then map_option (\<lambda>ob. ob\<lparr>tracker_m := Some this\<rparr>) (objs s1 a) else objs s1 a)"
    using w(5) unfolding e .
  have 4: "calls s' = calls s1" "container_t s' = container_t s"
    using w(3,4) d(3) by (simp_all add: s2_def)
  have 5: "one_to_one s'"
    using d(8) r1 ne _ _ 3 t1'
  proof (rule one_to_one_move)
    show "tracked_objects_m lk = []" if "trks s1 this = Some lk" for lk
      using that l1 by auto
  qed simp
  from d(1,4,5,6,7) 1 2 3 4 5 show thesis by (rule that)
qed

text \<open>
  C8. In a world where membership is one-to-one, for a tracker \<open>rhs\<close>: move construction of
  a tracker at \<open>this\<close> from \<open>rhs\<close> gives the new tracker the whole container of \<open>rhs\<close>, in
  the same order, every element of it then reports attached to \<open>this\<close>, \<open>rhs\<close> still exists
  with an empty container, and no notification is made. Move assignment of \<open>rhs\<close> to
  another tracker \<open>this\<close> makes exactly the calls of \<open>detach_all\<close> on \<open>this\<close>: \<open>did_detach\<close>
  of \<open>this\<close>, once for each of its members, each call seeing \<open>rhs\<close> still holding its own
  members; then \<open>this\<close> holds the container of \<open>rhs\<close>, every element of it reports attached
  to \<open>this\<close>, the former members of \<open>this\<close> are detached, and \<open>rhs\<close> is empty. Membership is
  one-to-one after either.
\<close>

theorem tracker_move_contract:
  assumes inv: "one_to_one s" and r: "trks s rhs = Some r"
  shows "(this \<notin> dom (trks s) \<longrightarrow>
           (\<exists>s'. tracker_move_ctor this rhs s = Inr s'
              \<and> tracked_objects s' this = tracked_objects s rhs
              \<and> (\<forall>a \<in> set (tracked_objects s rhs). is_attached s' this (Some a))
              \<and> rhs \<in> dom (trks s') \<and> tracked_objects s' rhs = []
              \<and> calls s' = calls s \<and> one_to_one s'))
    \<and> (this \<noteq> rhs \<and> trks s this = Some l \<longrightarrow>
           (\<exists>s1 cs s'. detach_all this s = Inr s1 \<and> calls s1 = calls s @ cs
              \<and> map argument cs = tracked_objects s this
              \<and> (\<forall>c \<in> set cs. hook c = Did_detach \<and> receiver c = this
                    \<and> tracked_objects (world_seen s c) rhs = tracked_objects s rhs)
              \<and> tracker_move_assign this rhs s = Inr s'
              \<and> calls s' = calls s1
              \<and> tracked_objects s' this = tracked_objects s rhs
              \<and> (\<forall>a \<in> set (tracked_objects s rhs). is_attached s' this (Some a))
              \<and> (\<forall>a \<in> set (tracked_objects s this).
                    \<exists>ob. objs s' a = Some ob \<and> trackable_is_detached ob)
              \<and> rhs \<in> dom (trks s') \<and> tracked_objects s' rhs = []
              \<and> one_to_one s'))"
proof (rule conjI; rule impI)
  have xr: "tracked_objects s rhs = tracked_objects_m r" using r by (simp add: tracked_objects_def)
  assume fresh: "this \<notin> dom (trks s)"
  from tracker_move_ctor_ok [OF inv r fresh] obtain s' where
    m: "tracker_move_ctor this rhs s = Inr s'"
    "trks s' = (trks s)(this \<mapsto> \<lparr>tracked_objects_m = tracked_objects_m r\<rparr>,
                         rhs \<mapsto> r\<lparr>tracked_objects_m := []\<rparr>)"
    "objs s' = (\<lambda>a. if a \<in> set (tracked_objects_m r)
                then map_option (\<lambda>ob. ob\<lparr>tracker_m := Some this\<rparr>) (objs s a) else objs s a)"
    "calls s' = calls s" "container_t s' = container_t s" "one_to_one s'" .
  from fresh r have ne: "this \<noteq> rhs" by auto
  have 1: "tracked_objects s' this = tracked_objects s rhs"
    using m(2) ne xr by (simp add: tracked_objects_def)
  have 2: "\<forall>a \<in> set (tracked_objects s rhs). is_attached s' this (Some a)"
  proof
    fix a assume "a \<in> set (tracked_objects s rhs)"
    with xr have a: "a \<in> set (tracked_objects_m r)" by simp
    from one_to_one_member [OF inv r a] obtain ob where "objs s a = Some ob" by blast
    with a m(3) show "is_attached s' this (Some a)" by (simp add: is_attached_def)
  qed
  have 3: "rhs \<in> dom (trks s')" "tracked_objects s' rhs = []"
    using m(2) by (simp_all add: tracked_objects_def)
  from m(1) 1 2 3 m(4,6)
  show "\<exists>s'. tracker_move_ctor this rhs s = Inr s'
              \<and> tracked_objects s' this = tracked_objects s rhs
              \<and> (\<forall>a \<in> set (tracked_objects s rhs). is_attached s' this (Some a))
              \<and> rhs \<in> dom (trks s') \<and> tracked_objects s' rhs = []
              \<and> calls s' = calls s \<and> one_to_one s'"
    by blast
next
  have xr: "tracked_objects s rhs = tracked_objects_m r" using r by (simp add: tracked_objects_def)
  assume "this \<noteq> rhs \<and> trks s this = Some l"
  then have ne: "this \<noteq> rhs" and l: "trks s this = Some l" by simp_all
  have xl: "tracked_objects s this = tracked_objects_m l" using l by (simp add: tracked_objects_def)
  from tracker_move_assign_ok [OF inv r l ne] obtain s1 cs s' where
    m: "detach_all this s = Inr s1"
    "objs s1 = (\<lambda>a. if a \<in> set (tracked_objects_m l)
                then map_option (\<lambda>ob. ob\<lparr>tracker_m := None\<rparr>) (objs s a) else objs s a)"
    "calls s1 = calls s @ cs" "map argument cs = tracked_objects_m l"
    "\<forall>c \<in> set cs. hook c = Did_detach \<and> receiver c = this \<and> trks_seen c = trks s
            \<and> dom (objs_seen c) = dom (objs s)
            \<and> (\<exists>ob. objs_seen c (argument c) = Some ob \<and> tracker_m ob = None)"
    "tracker_move_assign this rhs s = Inr s'"
    "trks s' = (trks s)(this \<mapsto> l\<lparr>tracked_objects_m := tracked_objects_m r\<rparr>,
                         rhs \<mapsto> r\<lparr>tracked_objects_m := []\<rparr>)"
    "objs s' = (\<lambda>a. if a \<in> set (tracked_objects_m r)
                then map_option (\<lambda>ob. ob\<lparr>tracker_m := Some this\<rparr>) (objs s1 a) else objs s1 a)"
    "calls s' = calls s1" "container_t s' = container_t s" "one_to_one s'" .
  have 0: "map argument cs = tracked_objects s this" using m(4) xl by simp
  have 1: "\<forall>c \<in> set cs. hook c = Did_detach \<and> receiver c = this
                    \<and> tracked_objects (world_seen s c) rhs = tracked_objects s rhs"
    using m(5) by (simp add: tracked_objects_def world_seen_def)
  have 2: "tracked_objects s' this = tracked_objects s rhs"
    using m(7) ne xr by (simp add: tracked_objects_def)
  have 3: "\<forall>a \<in> set (tracked_objects s rhs). is_attached s' this (Some a)"
  proof
    fix a assume "a \<in> set (tracked_objects s rhs)"
    with xr have a: "a \<in> set (tracked_objects_m r)" by simp
    from one_to_one_member [OF inv r a] obtain ob where "objs s a = Some ob" by blast
    then have "objs s1 a \<noteq> None" unfolding m(2) by simp
    then obtain ob1 where "objs s1 a = Some ob1" by blast
    with a m(8) show "is_attached s' this (Some a)" by (simp add: is_attached_def)
  qed
  have 4: "\<forall>a \<in> set (tracked_objects s this).
                    \<exists>ob. objs s' a = Some ob \<and> trackable_is_detached ob"
  proof
    fix a assume "a \<in> set (tracked_objects s this)"
    with xl have a: "a \<in> set (tracked_objects_m l)" by simp
    from one_to_one_member [OF inv l a] obtain ob
      where ob: "objs s a = Some ob" "tracker_m ob = Some this" by blast
    have "a \<notin> set (tracked_objects_m r)"
    proof
      assume "a \<in> set (tracked_objects_m r)"
      from one_to_one_member [OF inv r this] ob ne show False by simp
    qed
    with m(8) have "objs s' a = objs s1 a" by simp
    also have "\<dots> = Some (ob\<lparr>tracker_m := None\<rparr>)" using m(2) a ob by simp
    finally show "\<exists>ob. objs s' a = Some ob \<and> trackable_is_detached ob"
      by (simp add: trackable_is_detached_def trackable_is_attached_def my_tracker_def)
  qed
  have 5: "rhs \<in> dom (trks s')" "tracked_objects s' rhs = []"
    using m(7) by (simp_all add: tracked_objects_def)
  from m(1,3) 0 1 m(6,9) 2 3 4 5 m(11)
  show "\<exists>s1 cs s'. detach_all this s = Inr s1 \<and> calls s1 = calls s @ cs
              \<and> map argument cs = tracked_objects s this
              \<and> (\<forall>c \<in> set cs. hook c = Did_detach \<and> receiver c = this
                    \<and> tracked_objects (world_seen s c) rhs = tracked_objects s rhs)
              \<and> tracker_move_assign this rhs s = Inr s'
              \<and> calls s' = calls s1
              \<and> tracked_objects s' this = tracked_objects s rhs
              \<and> (\<forall>a \<in> set (tracked_objects s rhs). is_attached s' this (Some a))
              \<and> (\<forall>a \<in> set (tracked_objects s this).
                    \<exists>ob. objs s' a = Some ob \<and> trackable_is_detached ob)
              \<and> rhs \<in> dom (trks s') \<and> tracked_objects s' rhs = []
              \<and> one_to_one s'"
    by blast
qed

theorem tracker_move_contract_witness:
  "one_to_one example_world
   \<and> trks example_world 10 = Some \<lparr>tracked_objects_m = [1, 2]\<rparr>
   \<and> (\<exists>s'. tracker_move_ctor 30 10 example_world = Inr s'
         \<and> tracked_objects s' 30 = [1, 2] \<and> tracked_objects s' 10 = []
         \<and> is_attached s' 30 (Some 1) \<and> is_attached s' 30 (Some 2) \<and> calls s' = [])
   \<and> (\<exists>s'. tracker_move_assign 20 10 example_world = Inr s'
         \<and> map argument (calls s') = [3]
         \<and> tracked_objects s' 20 = [1, 2] \<and> tracked_objects s' 10 = []
         \<and> is_attached s' 20 (Some 1) \<and> is_attached s' 20 (Some 2)
         \<and> \<not> is_attached s' 20 (Some 3))"
proof -
  have a: "trks example_world 10 = Some \<lparr>tracked_objects_m = [1, 2]\<rparr>"
    "30 \<notin> dom (trks example_world)"
    "(20::nat) \<noteq> 10 \<and> trks example_world 20 = Some \<lparr>tracked_objects_m = [3]\<rparr>"
    by (simp_all add: example_world_def)
  have c: "calls example_world = []" "tracked_objects example_world 10 = [1, 2]"
    "tracked_objects example_world 20 = [3]"
    by (auto simp: example_world_def tracked_objects_def)
  from tracker_move_contract [OF example_world_ok a(1), of 30 "\<lparr>tracked_objects_m = []\<rparr>",
      THEN conjunct1] a(2) c
  have 1: "\<exists>s'. tracker_move_ctor 30 10 example_world = Inr s'
         \<and> tracked_objects s' 30 = [1, 2] \<and> tracked_objects s' 10 = []
         \<and> is_attached s' 30 (Some 1) \<and> is_attached s' 30 (Some 2) \<and> calls s' = []"
    by auto
  from tracker_move_contract [OF example_world_ok a(1), of 20 "\<lparr>tracked_objects_m = [3]\<rparr>",
      THEN conjunct2] a(3) c
  have "\<exists>s'. tracker_move_assign 20 10 example_world = Inr s'
         \<and> map argument (calls s') = [3]
         \<and> tracked_objects s' 20 = [1, 2] \<and> tracked_objects s' 10 = []
         \<and> is_attached s' 20 (Some 1) \<and> is_attached s' 20 (Some 2)
         \<and> (\<exists>ob. objs s' 3 = Some ob \<and> trackable_is_detached ob)"
    by auto
  then have 2: "\<exists>s'. tracker_move_assign 20 10 example_world = Inr s'
         \<and> map argument (calls s') = [3]
         \<and> tracked_objects s' 20 = [1, 2] \<and> tracked_objects s' 10 = []
         \<and> is_attached s' 20 (Some 1) \<and> is_attached s' 20 (Some 2)
         \<and> \<not> is_attached s' 20 (Some 3)"
    by (auto simp: is_attached_def trackable_is_detached_def trackable_is_attached_def
        my_tracker_def)
  from example_world_ok a(1) 1 2 show ?thesis by blast
qed

section \<open>Moving and copying a trackable\<close>

lemma one_to_one_links:
  assumes inv: "one_to_one s" and t': "trks s' = trks s"
    and new: "\<And>a ob' t. objs s' a = Some ob' \<Longrightarrow> tracker_m ob' = Some t
        \<Longrightarrow> \<exists>ob. objs s a = Some ob \<and> tracker_m ob = Some t"
    and old: "\<And>a ob t. objs s a = Some ob \<Longrightarrow> tracker_m ob = Some t
        \<Longrightarrow> \<exists>ob'. objs s' a = Some ob' \<and> tracker_m ob' = Some t"
  shows "one_to_one s'"
  unfolding one_to_one_iff
proof (rule conjI; intro allI impI)
  fix u uk assume uk: "trks s' u = Some uk"
  with t' have uk0: "trks s u = Some uk" by simp
  have "\<exists>ob. objs s' b = Some ob \<and> tracker_m ob = Some u"
    if "b \<in> set (tracked_objects_m uk)" for b
    using one_to_one_member [OF inv uk0 that] old by blast
  with one_to_one_distinct [OF inv uk0]
  show "distinct (tracked_objects_m uk) \<and>
        (\<forall>b \<in> set (tracked_objects_m uk). \<exists>ob. objs s' b = Some ob \<and> tracker_m ob = Some u)"
    by simp
next
  fix b obb u assume b: "objs s' b = Some obb" "tracker_m obb = Some u"
  from new [OF b] obtain ob where "objs s b = Some ob" "tracker_m ob = Some u" by blast
  from one_to_one_back [OF inv this] t'
  show "\<exists>tk. trks s' u = Some tk \<and> b \<in> set (tracked_objects_m tk)" by simp
qed

lemma one_to_one_new_object:
  assumes inv: "one_to_one s" and fresh: "a \<notin> dom (objs s)"
    and o': "objs s' = (objs s)(a \<mapsto> \<lparr>payload = v, tracker_m = None\<rparr>)"
    and t': "trks s' = trks s"
  shows "one_to_one s'"
  using inv t'
proof (rule one_to_one_links)
  show "\<exists>ob. objs s b = Some ob \<and> tracker_m ob = Some t"
    if "objs s' b = Some ob'" "tracker_m ob' = Some t" for b ob' t
    using that o' by (auto split: if_splits)
  show "\<exists>ob'. objs s' b = Some ob' \<and> tracker_m ob' = Some t"
    if "objs s b = Some ob" "tracker_m ob = Some t" for b ob t
    using that o' fresh by (auto split: if_splits)
qed

lemma one_to_one_payload:
  assumes inv: "one_to_one s" and ob: "objs s a = Some ob"
    and o': "objs s' = (objs s)(a \<mapsto> ob\<lparr>payload := v\<rparr>)"
    and t': "trks s' = trks s"
  shows "one_to_one s'"
  using inv t'
proof (rule one_to_one_links)
  show "\<exists>ob. objs s b = Some ob \<and> tracker_m ob = Some t"
    if "objs s' b = Some ob'" "tracker_m ob' = Some t" for b ob' t
    using that o' ob by (auto split: if_splits)
  show "\<exists>ob'. objs s' b = Some ob' \<and> tracker_m ob' = Some t"
    if "objs s b = Some ob" "tracker_m ob = Some t" for b ob t
    using that o' \<open>objs s a = Some _\<close> by (auto split: if_splits)
qed

text \<open>
  The common end of the move constructor and of move assignment: \<open>rhs.detach()\<close>, then
  \<open>tracker->attach(this)\<close> if \<open>rhs\<close> had a tracker.
\<close>

lemma transfer_detached:
  assumes r: "objs s1 rhs = Some r" and det: "tracker_m r = None"
  shows "(case trackable_detach rhs s1 of Inl e \<Rightarrow> Inl e
          | Inr (_, s2) \<Rightarrow>
              (case tracker_m r of None \<Rightarrow> Inr s2
               | Some t \<Rightarrow> (case attach t (Some this) s2 of Inl e \<Rightarrow> Inl e
                            | Inr (_, s3) \<Rightarrow> Inr s3))) = Inr s1"
  using trackable_detach_detached [OF r det] det by simp



lemma trackable_move_ctor_eq:
  assumes "this \<notin> dom (objs s)" and "objs s rhs = Some r"
  shows "trackable_move_ctor this rhs s =
     (case trackable_detach rhs
             (s\<lparr>objs := (objs s)(this \<mapsto> \<lparr>payload = payload r, tracker_m = None\<rparr>)\<rparr>) of
        Inl e \<Rightarrow> Inl e
      | Inr (_, s2) \<Rightarrow>
          (case tracker_m r of None \<Rightarrow> Inr s2
           | Some t \<Rightarrow> (case attach t (Some this) s2 of Inl e \<Rightarrow> Inl e
                        | Inr (_, s3) \<Rightarrow> Inr s3)))"
  using assms by (simp add: trackable_move_ctor_def Let_def)








lemmas evaluation =
  trackable_move_assign_def trackable_copy_assign_def trackable_detach_def detach_def
  disconnect_def connect_def attach_def is_attached_def is_detached_def static_dispatch_def
  my_tracker_def trackable_is_detached_def trackable_is_attached_def erase_def
  tracked_objects_def notified_def Let_def example_world_def


section \<open>Copying a trackable\<close>

lemma trackable_copy_ctor_hooks:
  assumes "trackable_copy_ctor this rhs s = Inr s'"
  shows "\<exists>cs. calls s' = calls s @ cs \<and> (\<forall>c \<in> set cs. hook c \<noteq> Did_make)"
proof -
  from assms obtain r where fresh: "this \<notin> dom (objs s)" and r: "objs s rhs = Some r"
    by (auto simp: trackable_copy_ctor_def split: if_splits option.splits)
  define s1 where "s1 = s\<lparr>objs := (objs s)(this \<mapsto> \<lparr>payload = payload r, tracker_m = None\<rparr>)\<rparr>"
  have c1: "calls s1 = calls s" by (simp add: s1_def)
  from assms fresh r have "s' = s1 \<or> (\<exists>t b. attach t (Some this) s1 = Inr (b, s'))"
    unfolding s1_def
    by (auto simp: trackable_copy_ctor_def Let_def split: option.splits sum.splits)
  then show ?thesis
  proof
    assume "s' = s1"
    with c1 show ?thesis by simp
  next
    assume "\<exists>t b. attach t (Some this) s1 = Inr (b, s')"
    then obtain t b where "attach t (Some this) s1 = Inr (b, s')" by blast
    from attach_hooks [OF this] c1 show ?thesis by simp
  qed
qed

lemma trackable_copy_assign_hooks:
  assumes "trackable_copy_assign this rhs s = Inr s'"
  shows "\<exists>cs. calls s' = calls s @ cs \<and> (\<forall>c \<in> set cs. hook c \<noteq> Did_make)"
proof -
  from assms obtain l r where l: "objs s this = Some l" and r: "objs s rhs = Some r"
    by (auto simp: trackable_copy_assign_def split: option.splits)
  define s1 where "s1 = s\<lparr>objs := (objs s)(this \<mapsto> l\<lparr>payload := payload r\<rparr>)\<rparr>"
  have c1: "calls s1 = calls s" by (simp add: s1_def)
  from assms l r have "s' = s \<or> s' = s1 \<or>
      (\<exists>b s2. trackable_detach this s1 = Inr (b, s2) \<and>
         (s' = s2 \<or> (\<exists>t b'. attach t (Some this) s2 = Inr (b', s'))))"
    unfolding s1_def
    by (auto simp: trackable_copy_assign_def Let_def split: option.splits sum.splits if_splits)
  then consider "s' = s" | "s' = s1"
    | b s2 where "trackable_detach this s1 = Inr (b, s2)" "s' = s2"
    | b s2 t b' where "trackable_detach this s1 = Inr (b, s2)" "attach t (Some this) s2 = Inr (b', s')"
    by blast
  then show ?thesis
  proof cases
    case 1
    then show ?thesis by simp
  next
    case 2
    with c1 show ?thesis by simp
  next
    case 3
    from trackable_detach_hooks [OF 3(1)] obtain cs where
      "calls s2 = calls s1 @ cs" "\<forall>c \<in> set cs. hook c = Did_detach" by blast
    with 3(2) c1 show ?thesis by auto
  next
    case 4
    from trackable_detach_hooks [OF 4(1)] obtain cs where
      cs: "calls s2 = calls s1 @ cs" "\<forall>c \<in> set cs. hook c = Did_detach" by blast
    from attach_hooks [OF 4(2)] obtain ds where
      ds: "calls s' = calls s2 @ ds" "\<forall>c \<in> set ds. hook c \<noteq> Did_make" by blast
    from cs ds c1 have "calls s' = calls s @ (cs @ ds)" by simp
    moreover from cs(2) ds(2) have "\<forall>c \<in> set (cs @ ds). hook c \<noteq> Did_make" by auto
    ultimately show ?thesis by blast
  qed
qed

lemma trackable_copy_ctor_attached:
  assumes inv: "one_to_one s" and r: "objs s rhs = Some r" and fresh: "this \<notin> dom (objs s)"
    and att: "tracker_m r = Some t"
  obtains tk s' where "trks s t = Some tk"
    "trackable_copy_ctor this rhs s = Inr s'"
    "attach t (Some this)
       (s\<lparr>objs := (objs s)(this \<mapsto> \<lparr>payload = payload r, tracker_m = None\<rparr>)\<rparr>) = Inr (True, s')"
    "objs s' = (objs s)(this \<mapsto> \<lparr>payload = payload r, tracker_m = Some t\<rparr>)"
    "trks s' = (trks s)(t \<mapsto> tk\<lparr>tracked_objects_m :=
        insert_end (container_t s) (tracked_objects_m tk) this\<rparr>)"
    "this \<notin> set (tracked_objects_m tk)"
    "calls s' = calls s @ [\<lparr>hook = Did_attach, receiver = t, argument = this,
        objs_seen = objs s', trks_seen = trks s'\<rparr>]"
    "container_t s' = container_t s" "one_to_one s'"
proof -
  define s1 where "s1 = s\<lparr>objs := (objs s)(this \<mapsto> \<lparr>payload = payload r, tracker_m = None\<rparr>)\<rparr>"
  have o1: "objs s1 = (objs s)(this \<mapsto> \<lparr>payload = payload r, tracker_m = None\<rparr>)"
    and t1: "trks s1 = trks s" and c1: "calls s1 = calls s" and k1: "container_t s1 = container_t s"
    by (simp_all add: s1_def)
  have inv1: "one_to_one s1" using inv fresh o1 t1 by (rule one_to_one_new_object)
  from one_to_one_back [OF inv r att] obtain tk where tk: "trks s t = Some tk" by blast
  have nin: "this \<notin> set (tracked_objects_m tk)"
  proof
    assume "this \<in> set (tracked_objects_m tk)"
    from one_to_one_member [OF inv tk this] fresh show False by auto
  qed
  have d1: "objs s1 this = Some \<lparr>payload = payload r, tracker_m = None\<rparr>" using o1 by simp
  have tk1: "trks s1 t = Some tk" using tk t1 by simp
  from attach_detached [OF inv1 d1 tk1] obtain s' where
    a: "attach t (Some this) s1 = Inr (True, s')"
    "objs s' = (objs s1)(this \<mapsto> \<lparr>payload = payload r, tracker_m = None\<rparr>\<lparr>tracker_m := Some t\<rparr>)"
    "trks s' = (trks s1)(t \<mapsto> tk\<lparr>tracked_objects_m :=
        insert_end (container_t s1) (tracked_objects_m tk) this\<rparr>)"
    "calls s' = calls s1 @ [\<lparr>hook = Did_attach, receiver = t, argument = this,
        objs_seen = objs s', trks_seen = trks s'\<rparr>]"
    "container_t s' = container_t s1" "one_to_one s'" by auto
  have 1: "trackable_copy_ctor this rhs s = Inr s'"
    using fresh r att a(1) unfolding s1_def by (simp add: trackable_copy_ctor_def Let_def)
  have 2: "attach t (Some this)
       (s\<lparr>objs := (objs s)(this \<mapsto> \<lparr>payload = payload r, tracker_m = None\<rparr>)\<rparr>) = Inr (True, s')"
    using a(1) by (simp add: s1_def)
  have 3: "objs s' = (objs s)(this \<mapsto> \<lparr>payload = payload r, tracker_m = Some t\<rparr>)"
    using a(2) o1 by simp
  have 4: "trks s' = (trks s)(t \<mapsto> tk\<lparr>tracked_objects_m :=
        insert_end (container_t s) (tracked_objects_m tk) this\<rparr>)"
    using a(3) t1 k1 by simp
  have 5: "calls s' = calls s @ [\<lparr>hook = Did_attach, receiver = t, argument = this,
        objs_seen = objs s', trks_seen = trks s'\<rparr>]" using a(4) c1 by simp
  have 6: "container_t s' = container_t s" using a(5) k1 by simp
  from tk 1 2 3 4 nin 5 6 a(6) show thesis by (rule that)
qed

lemma trackable_detach_any:
  assumes inv: "one_to_one s" and ob: "objs s a = Some ob"
  obtains b s' cs where "trackable_detach a s = Inr (b, s')" "calls s' = calls s @ cs"
    "map notified cs = (case tracker_m ob of None \<Rightarrow> [] | Some u \<Rightarrow> [(Did_detach, u, a)])"
    "objs s' = (objs s)(a \<mapsto> ob\<lparr>tracker_m := None\<rparr>)" "one_to_one s'"
    "\<forall>t. tracker_m ob \<noteq> Some t \<longrightarrow> trks s' t = trks s t"
    "container_t s' = container_t s"
proof (cases "tracker_m ob")
  case None
  have e: "ob\<lparr>tracker_m := None\<rparr> = ob" using None by (cases ob) simp
  have "objs s = (objs s)(a \<mapsto> ob\<lparr>tracker_m := None\<rparr>)"
    using ob e by (simp add: map_upd_triv)
  with trackable_detach_detached [OF ob None] None inv
  show ?thesis by (intro that [of False s "[]"]) simp_all
next
  case (Some u)
  from trackable_detach_attached [OF inv ob Some] obtain tk s' where
    x: "trks s u = Some tk" "a \<in> set (tracked_objects_m tk)"
    "trackable_detach a s = Inr (True, s')"
    "objs s' = (objs s)(a \<mapsto> ob\<lparr>tracker_m := None\<rparr>)"
    "trks s' = (trks s)(u \<mapsto> tk\<lparr>tracked_objects_m := remove1 a (tracked_objects_m tk)\<rparr>)"
    "calls s' = calls s @ [\<lparr>hook = Did_detach, receiver = u, argument = a,
        objs_seen = objs s', trks_seen = trks s'\<rparr>]"
    "container_t s' = container_t s" "one_to_one s'" .
  show ?thesis
  proof (rule that [OF x(3,6) _ x(4,8) _ x(7)])
    show "map notified [\<lparr>hook = Did_detach, receiver = u, argument = a,
        objs_seen = objs s', trks_seen = trks s'\<rparr>]
      = (case tracker_m ob of None \<Rightarrow> [] | Some u \<Rightarrow> [(Did_detach, u, a)])"
      using Some by (simp add: notified_def)
    show "\<forall>t. tracker_m ob \<noteq> Some t \<longrightarrow> trks s' t = trks s t"
      using Some x(5) by auto
  qed
qed

lemma trackable_copy_assign_differs:
  assumes inv: "one_to_one s" and l: "objs s this = Some l" and r: "objs s rhs = Some r"
    and ne: "this \<noteq> rhs" and dif: "tracker_m l \<noteq> tracker_m r"
  shows "\<exists>s' cs. trackable_copy_assign this rhs s = Inr s' \<and> calls s' = calls s @ cs
     \<and> map notified cs =
         (case tracker_m l of None \<Rightarrow> [] | Some u \<Rightarrow> [(Did_detach, u, this)]) @
         (case tracker_m r of None \<Rightarrow> [] | Some t \<Rightarrow> [(Did_attach, t, this)])
     \<and> objs s' = (objs s)(this \<mapsto> \<lparr>payload = payload r, tracker_m = tracker_m r\<rparr>)
     \<and> one_to_one s'"
proof -
  define s1 where "s1 = s\<lparr>objs := (objs s)(this \<mapsto> l\<lparr>payload := payload r\<rparr>)\<rparr>"
  have o1: "objs s1 = (objs s)(this \<mapsto> l\<lparr>payload := payload r\<rparr>)"
    and t1: "trks s1 = trks s" and c1: "calls s1 = calls s" and k1: "container_t s1 = container_t s"
    by (simp_all add: s1_def)
  have inv1: "one_to_one s1" using inv l o1 t1 by (rule one_to_one_payload)
  define l1 where "l1 = l\<lparr>payload := payload r\<rparr>"
  have l1: "objs s1 this = Some l1" using o1 by (simp add: l1_def)
  have tl1: "tracker_m l1 = tracker_m l" by (simp add: l1_def)
  from trackable_detach_any [OF inv1 l1] obtain b s2 cs where
    d: "trackable_detach this s1 = Inr (b, s2)" "calls s2 = calls s1 @ cs"
    "map notified cs = (case tracker_m l1 of None \<Rightarrow> [] | Some u \<Rightarrow> [(Did_detach, u, this)])"
    "objs s2 = (objs s1)(this \<mapsto> l1\<lparr>tracker_m := None\<rparr>)" "one_to_one s2"
    "\<forall>t. tracker_m l1 \<noteq> Some t \<longrightarrow> trks s2 t = trks s1 t"
    "container_t s2 = container_t s1" .
  have r2: "objs s2 rhs = Some r" using d(4) o1 r ne by simp
  have l2: "objs s2 this = Some (l1\<lparr>tracker_m := None\<rparr>)" using d(4) by simp
  have start: "trackable_copy_assign this rhs s =
     (case tracker_m r of None \<Rightarrow> Inr s2
      | Some t \<Rightarrow> (case attach t (Some this) s2 of Inl e \<Rightarrow> Inl e | Inr (_, s3) \<Rightarrow> Inr s3))"
    using l r ne dif d(1) r2 unfolding s1_def
    by (simp add: trackable_copy_assign_def Let_def)
  have fin: "l1\<lparr>tracker_m := x\<rparr> = \<lparr>payload = payload r, tracker_m = x\<rparr>" for x
    by (cases l) (simp add: l1_def)
  show ?thesis
  proof (cases "tracker_m r")
    case None
    have 4: "objs s2 = (objs s)(this \<mapsto> \<lparr>payload = payload r, tracker_m = tracker_m r\<rparr>)"
      using d(4) o1 None fin by simp
    have 1: "trackable_copy_assign this rhs s = Inr s2" using start None by simp
    have 2: "calls s2 = calls s @ cs" using d(2) c1 by simp
    have 3: "map notified cs =
         (case tracker_m l of None \<Rightarrow> [] | Some u \<Rightarrow> [(Did_detach, u, this)]) @
         (case tracker_m r of None \<Rightarrow> [] | Some t \<Rightarrow> [(Did_attach, t, this)])"
      using d(3) tl1 None by simp
    show ?thesis
      apply (rule exI [of _ s2], rule exI [of _ cs])
      apply (intro conjI)
          apply (rule 1)
         apply (rule 2)
        apply (rule 3)
       apply (rule 4)
      apply (rule d(5))
      done
  next
    case (Some t)
    from one_to_one_back [OF inv r Some] obtain tk where tk: "trks s t = Some tk" by blast
    from dif Some tl1 have "tracker_m l1 \<noteq> Some t" by simp
    with d(6) tk t1 have tk2: "trks s2 t = Some tk" by simp
    have dl2: "tracker_m (l1\<lparr>tracker_m := None\<rparr>) = None" by simp
    from attach_detached [OF d(5) l2 tk2 dl2] obtain s' where
      a: "attach t (Some this) s2 = Inr (True, s')"
      "objs s' = (objs s2)(this \<mapsto> l1\<lparr>tracker_m := None\<rparr>\<lparr>tracker_m := Some t\<rparr>)"
      "calls s' = calls s2 @ [\<lparr>hook = Did_attach, receiver = t, argument = this,
          objs_seen = objs s', trks_seen = trks s'\<rparr>]"
      "one_to_one s'" by metis
    let ?c = "\<lparr>hook = Did_attach, receiver = t, argument = this,
          objs_seen = objs s', trks_seen = trks s'\<rparr>"
    have 1: "trackable_copy_assign this rhs s = Inr s'" using start Some a(1) by simp
    have 2: "calls s' = calls s @ (cs @ [?c])" using a(3) d(2) c1 by simp
    have 3: "map notified (cs @ [?c]) =
         (case tracker_m l of None \<Rightarrow> [] | Some u \<Rightarrow> [(Did_detach, u, this)]) @
         (case tracker_m r of None \<Rightarrow> [] | Some t \<Rightarrow> [(Did_attach, t, this)])"
      using d(3) tl1 Some by (simp add: notified_def)
    have "l1\<lparr>tracker_m := None\<rparr>\<lparr>tracker_m := Some t\<rparr> = \<lparr>payload = payload r, tracker_m = Some t\<rparr>"
      using fin [of "Some t"] by simp
    then have 4: "objs s' = (objs s)(this \<mapsto> \<lparr>payload = payload r, tracker_m = tracker_m r\<rparr>)"
      using a(2) d(4) o1 Some by simp
    show ?thesis
      apply (rule exI [of _ s'], rule exI [of _ "cs @ [?c]"])
      apply (intro conjI)
          apply (rule 1)
         apply (rule 2)
        apply (rule 3)
       apply (rule 4)
      apply (rule a(4))
      done
  qed
qed


text \<open>
  C7, as amended. In a world where membership is one-to-one, for a source \<open>rhs\<close>: the copy
  constructor copies the payload into a detached trackable, and, if the source is attached
  to a tracker \<open>t\<close>, then attaches the copy to \<open>t\<close> as \<open>attach\<close> does, with one call of
  \<open>did_attach\<close> of \<open>t\<close> and one more element in the container of \<open>t\<close>. Copy assignment to
  another object whose tracker differs from that of the source copies the payload, first
  detaches the destination, with one call of \<open>did_detach\<close> of its tracker if it had one, and
  then, if the source is attached to \<open>t\<close>, attaches the destination to \<open>t\<close> with one call of
  \<open>did_attach\<close> of \<open>t\<close>. Copy assignment to another object with the same tracker as the
  source, attached or not, only copies the payload and makes no call; assignment of an
  object to itself does nothing. Neither the copy constructor nor copy assignment ever
  calls \<open>did_make\<close>.
\<close>

theorem trackable_copy_contract:
  assumes inv: "one_to_one s" and r: "objs s rhs = Some r"
  shows "(this \<notin> dom (objs s) \<and> tracker_m r = None \<longrightarrow>
           trackable_copy_ctor this rhs s =
             Inr (s\<lparr>objs := (objs s)(this \<mapsto> \<lparr>payload = payload r, tracker_m = None\<rparr>)\<rparr>))
    \<and> (this \<notin> dom (objs s) \<and> tracker_m r = Some t \<longrightarrow>
           (\<exists>s' c. trackable_copy_ctor this rhs s = Inr s'
              \<and> attach t (Some this)
                    (s\<lparr>objs := (objs s)(this \<mapsto> \<lparr>payload = payload r, tracker_m = None\<rparr>)\<rparr>)
                  = Inr (True, s')
              \<and> calls s' = calls s @ [c] \<and> notified c = (Did_attach, t, this)
              \<and> objs s' = (objs s)(this \<mapsto> \<lparr>payload = payload r, tracker_m = Some t\<rparr>)
              \<and> this \<in> set (tracked_objects s' t)
              \<and> length (tracked_objects s' t) = Suc (length (tracked_objects s t))
              \<and> one_to_one s'))
    \<and> (objs s this = Some l \<and> this \<noteq> rhs \<and> tracker_m l \<noteq> tracker_m r \<longrightarrow>
           (\<exists>s' cs. trackable_copy_assign this rhs s = Inr s' \<and> calls s' = calls s @ cs
              \<and> map notified cs =
                  (case tracker_m l of None \<Rightarrow> [] | Some u \<Rightarrow> [(Did_detach, u, this)]) @
                  (case tracker_m r of None \<Rightarrow> [] | Some t \<Rightarrow> [(Did_attach, t, this)])
              \<and> objs s' = (objs s)(this \<mapsto> \<lparr>payload = payload r, tracker_m = tracker_m r\<rparr>)
              \<and> one_to_one s'))
    \<and> (objs s this = Some l \<and> this \<noteq> rhs \<and> tracker_m l = tracker_m r \<longrightarrow>
           trackable_copy_assign this rhs s =
             Inr (s\<lparr>objs := (objs s)(this \<mapsto> l\<lparr>payload := payload r\<rparr>)\<rparr>))
    \<and> trackable_copy_assign rhs rhs s = Inr s
    \<and> (\<forall>s'. trackable_copy_ctor this rhs s = Inr s' \<or> trackable_copy_assign this rhs s = Inr s'
           \<longrightarrow> (\<exists>cs. calls s' = calls s @ cs \<and> (\<forall>c \<in> set cs. hook c \<noteq> Did_make)))"
proof (intro conjI impI allI)
  assume "this \<notin> dom (objs s) \<and> tracker_m r = None"
  with r show "trackable_copy_ctor this rhs s =
             Inr (s\<lparr>objs := (objs s)(this \<mapsto> \<lparr>payload = payload r, tracker_m = None\<rparr>)\<rparr>)"
    by (simp add: trackable_copy_ctor_def Let_def)
next
  assume "this \<notin> dom (objs s) \<and> tracker_m r = Some t"
  then have fresh: "this \<notin> dom (objs s)" and att: "tracker_m r = Some t" by simp_all
  from trackable_copy_ctor_attached [OF inv r fresh att] obtain tk s' where
    x: "trks s t = Some tk"
    "trackable_copy_ctor this rhs s = Inr s'"
    "attach t (Some this)
       (s\<lparr>objs := (objs s)(this \<mapsto> \<lparr>payload = payload r, tracker_m = None\<rparr>)\<rparr>) = Inr (True, s')"
    "objs s' = (objs s)(this \<mapsto> \<lparr>payload = payload r, tracker_m = Some t\<rparr>)"
    "trks s' = (trks s)(t \<mapsto> tk\<lparr>tracked_objects_m :=
        insert_end (container_t s) (tracked_objects_m tk) this\<rparr>)"
    "this \<notin> set (tracked_objects_m tk)"
    "calls s' = calls s @ [\<lparr>hook = Did_attach, receiver = t, argument = this,
        objs_seen = objs s', trks_seen = trks s'\<rparr>]"
    "container_t s' = container_t s" "one_to_one s'" .
  let ?c = "\<lparr>hook = Did_attach, receiver = t, argument = this,
        objs_seen = objs s', trks_seen = trks s'\<rparr>"
  have 1: "notified ?c = (Did_attach, t, this)" by (simp add: notified_def)
  have 2: "this \<in> set (tracked_objects s' t)"
    using x(5) by (simp add: tracked_objects_def set_insert_end)
  have 3: "length (tracked_objects s' t) = Suc (length (tracked_objects s t))"
    using x(1,5) length_insert_end [OF x(6)] by (simp add: tracked_objects_def)
  show "\<exists>s' c. trackable_copy_ctor this rhs s = Inr s'
              \<and> attach t (Some this)
                    (s\<lparr>objs := (objs s)(this \<mapsto> \<lparr>payload = payload r, tracker_m = None\<rparr>)\<rparr>)
                  = Inr (True, s')
              \<and> calls s' = calls s @ [c] \<and> notified c = (Did_attach, t, this)
              \<and> objs s' = (objs s)(this \<mapsto> \<lparr>payload = payload r, tracker_m = Some t\<rparr>)
              \<and> this \<in> set (tracked_objects s' t)
              \<and> length (tracked_objects s' t) = Suc (length (tracked_objects s t))
              \<and> one_to_one s'"
    apply (rule exI [of _ s'], rule exI [of _ ?c])
    apply (intro conjI)
           apply (rule x(2))
          apply (rule x(3))
         apply (rule x(7))
        apply (rule 1)
       apply (rule x(4))
      apply (rule 2)
     apply (rule 3)
    apply (rule x(9))
    done
next
  assume "objs s this = Some l \<and> this \<noteq> rhs \<and> tracker_m l \<noteq> tracker_m r"
  then have l: "objs s this = Some l" and ne: "this \<noteq> rhs"
    and dif: "tracker_m l \<noteq> tracker_m r" by simp_all
  from inv l r ne dif
  show "\<exists>s' cs. trackable_copy_assign this rhs s = Inr s' \<and> calls s' = calls s @ cs
              \<and> map notified cs =
                  (case tracker_m l of None \<Rightarrow> [] | Some u \<Rightarrow> [(Did_detach, u, this)]) @
                  (case tracker_m r of None \<Rightarrow> [] | Some t \<Rightarrow> [(Did_attach, t, this)])
              \<and> objs s' = (objs s)(this \<mapsto> \<lparr>payload = payload r, tracker_m = tracker_m r\<rparr>)
              \<and> one_to_one s'"
    by (rule trackable_copy_assign_differs)
next
  assume "objs s this = Some l \<and> this \<noteq> rhs \<and> tracker_m l = tracker_m r"
  with r show "trackable_copy_assign this rhs s =
             Inr (s\<lparr>objs := (objs s)(this \<mapsto> l\<lparr>payload := payload r\<rparr>)\<rparr>)"
    by (simp add: trackable_copy_assign_def Let_def)
next
  show "trackable_copy_assign rhs rhs s = Inr s"
    using r by (simp add: trackable_copy_assign_def)
next
  fix s' assume "trackable_copy_ctor this rhs s = Inr s' \<or> trackable_copy_assign this rhs s = Inr s'"
  then show "\<exists>cs. calls s' = calls s @ cs \<and> (\<forall>c \<in> set cs. hook c \<noteq> Did_make)"
    using trackable_copy_ctor_hooks trackable_copy_assign_hooks by blast
qed

theorem trackable_copy_contract_witness:
  "one_to_one example_world
   \<and> objs example_world 1 = Some \<lparr>payload = 0, tracker_m = Some 10\<rparr>
   \<and> (\<exists>s'. trackable_copy_ctor 5 1 example_world = Inr s'
         \<and> map notified (calls s') = [(Did_attach, 10, 5)]
         \<and> objs s' 5 = Some \<lparr>payload = 0, tracker_m = Some 10\<rparr>
         \<and> length (tracked_objects s' 10) = 3)
   \<and> (\<exists>s'. trackable_copy_assign 3 1 example_world = Inr s'
         \<and> map notified (calls s') = [(Did_detach, 20, 3), (Did_attach, 10, 3)]
         \<and> objs s' 3 = Some \<lparr>payload = 0, tracker_m = Some 10\<rparr>)
   \<and> (\<exists>s'. trackable_copy_assign 2 1 example_world = Inr s' \<and> calls s' = []
         \<and> objs s' 2 = Some \<lparr>payload = 0, tracker_m = Some 10\<rparr>)"
proof -
  have b: "objs example_world 1 = Some \<lparr>payload = 0, tracker_m = Some 10\<rparr>"
    "objs example_world 2 = Some \<lparr>payload = 5, tracker_m = Some 10\<rparr>"
    "objs example_world 3 = Some \<lparr>payload = 7, tracker_m = Some 20\<rparr>"
    "5 \<notin> dom (objs example_world)"
    by (simp_all add: example_world_def)
  have c: "calls example_world = []" "tracked_objects example_world 10 = [1, 2]"
    by (simp_all add: example_world_def tracked_objects_def)
  note m = trackable_copy_contract [OF example_world_ok b(1),
      of 5 10 "\<lparr>payload = 7, tracker_m = Some 20\<rparr>"]
  from m b c
  have 1: "\<exists>s'. trackable_copy_ctor 5 1 example_world = Inr s'
         \<and> map notified (calls s') = [(Did_attach, 10, 5)]
         \<and> objs s' 5 = Some \<lparr>payload = 0, tracker_m = Some 10\<rparr>
         \<and> length (tracked_objects s' 10) = 3"
    by auto
  note n = trackable_copy_contract [OF example_world_ok b(1),
      of 3 10 "\<lparr>payload = 7, tracker_m = Some 20\<rparr>"]
  from n b c
  have 2: "\<exists>s'. trackable_copy_assign 3 1 example_world = Inr s'
         \<and> map notified (calls s') = [(Did_detach, 20, 3), (Did_attach, 10, 3)]
         \<and> objs s' 3 = Some \<lparr>payload = 0, tracker_m = Some 10\<rparr>"
    by auto
  note k = trackable_copy_contract [OF example_world_ok b(1),
      of 2 10 "\<lparr>payload = 5, tracker_m = Some 10\<rparr>"]
  from k b c
  have 3: "\<exists>s'. trackable_copy_assign 2 1 example_world = Inr s' \<and> calls s' = []
         \<and> objs s' 2 = Some \<lparr>payload = 0, tracker_m = Some 10\<rparr>"
    by auto
  from example_world_ok b(1) 1 2 3 show ?thesis by blast
qed

text \<open>
  C7 as stated fails for copy assignment between two trackables of one tracker: the
  source at 1 is attached to the tracker at 10, and assigning it to the trackable at 2,
  attached to the same tracker, makes no call of \<open>did_attach\<close>.
\<close>

theorem trackable_copy_assign_counterexample:
  "is_attached example_world 10 (Some 1)
   \<and> \<not> isl (trackable_copy_assign 2 1 example_world)
   \<and> calls (projr (trackable_copy_assign 2 1 example_world)) = []
   \<and> is_attached (projr (trackable_copy_assign 2 1 example_world)) 10 (Some 2)"
  by (simp add: evaluation)

section \<open>Construction of a trackable and make\<close>

lemma forwarding_ctor_not_viable: "\<not> forwarding_ctor_viable"
  by (simp add: forwarding_ctor_viable_def in_function_params_def has_default_def)

lemma construct_forwarding:
  assumes "args \<noteq> []" and "\<forall>rhs. args \<noteq> [Trackable_lvalue rhs]"
    and "\<forall>rhs. args \<noteq> [Trackable_rvalue rhs]"
  shows "construct T this args s = Inl No_matching_constructor"
  using assms
  by (induction T this args s rule: construct.induct)
    (simp_all add: forwarding_ctor_not_viable)

lemma make_no_args:
  assumes inv: "one_to_one s" and v: "T [] = Some v" and fresh: "a \<notin> dom (objs s)"
    and tk: "trks s this = Some tk"
  obtains s' where "make T this a [] s = Inr (a, s')"
    "objs s' = (objs s)(a \<mapsto> \<lparr>payload = v, tracker_m = Some this\<rparr>)"
    "trks s' = (trks s)(this \<mapsto> tk\<lparr>tracked_objects_m :=
        insert_end (container_t s) (tracked_objects_m tk) a\<rparr>)"
    "a \<notin> set (tracked_objects_m tk)"
    "calls s' = calls s @ [\<lparr>hook = Did_make, receiver = this, argument = a,
        objs_seen = objs s', trks_seen = trks s'\<rparr>]"
    "container_t s' = container_t s" "one_to_one s'"
proof -
  define s1 where "s1 = s\<lparr>objs := (objs s)(a \<mapsto> \<lparr>payload = v, tracker_m = None\<rparr>)\<rparr>"
  have o1: "objs s1 = (objs s)(a \<mapsto> \<lparr>payload = v, tracker_m = None\<rparr>)"
    and t1: "trks s1 = trks s" and c1: "calls s1 = calls s" and k1: "container_t s1 = container_t s"
    by (simp_all add: s1_def)
  have inv1: "one_to_one s1" using inv fresh o1 t1 by (rule one_to_one_new_object)
  have con: "construct T a [] s = Inr s1"
    using v fresh by (simp add: trackable_ctor_def s1_def)
  have nin: "a \<notin> set (tracked_objects_m tk)"
  proof
    assume "a \<in> set (tracked_objects_m tk)"
    from one_to_one_member [OF inv tk this] fresh show False by auto
  qed
  have d1: "objs s1 a = Some \<lparr>payload = v, tracker_m = None\<rparr>" using o1 by simp
  have tk1: "trks s1 this = Some tk" using tk t1 by simp
  from connect_ok [OF d1 tk1] obtain s2 where
    c: "connect this (Some a) s1 = Inr s2"
    "objs s2 = (objs s1)(a \<mapsto> \<lparr>payload = v, tracker_m = None\<rparr>\<lparr>tracker_m := Some this\<rparr>)"
    "trks s2 = (trks s1)(this \<mapsto> tk\<lparr>tracked_objects_m :=
        insert_end (container_t s1) (tracked_objects_m tk) a\<rparr>)"
    "calls s2 = calls s1" "container_t s2 = container_t s1" by auto
  define s' where "s' = static_dispatch Did_make this a s2"
  have 1: "make T this a [] s = Inr (a, s')"
    using con c(1) by (simp add: make_def s'_def)
  have 2: "objs s' = (objs s)(a \<mapsto> \<lparr>payload = v, tracker_m = Some this\<rparr>)"
    using c(2) o1 by (simp add: s'_def static_dispatch_def)
  have 3: "trks s' = (trks s)(this \<mapsto> tk\<lparr>tracked_objects_m :=
        insert_end (container_t s) (tracked_objects_m tk) a\<rparr>)"
    using c(3) t1 k1 by (simp add: s'_def static_dispatch_def)
  have 4: "calls s' = calls s @ [\<lparr>hook = Did_make, receiver = this, argument = a,
        objs_seen = objs s', trks_seen = trks s'\<rparr>]"
    using c(4) c1 by (simp add: s'_def static_dispatch_def)
  have 5: "container_t s' = container_t s" using c(5) k1 by (simp add: s'_def static_dispatch_def)
  have 6: "one_to_one s'"
    using inv1 d1 tk1 _ _ _
  proof (rule one_to_one_link)
    show "tracker_m \<lparr>payload = v, tracker_m = None\<rparr> = None" by simp
    show "objs s' = (objs s1)(a \<mapsto> \<lparr>payload = v, tracker_m = None\<rparr>\<lparr>tracker_m := Some this\<rparr>)"
      using 2 o1 by simp
    show "trks s' = (trks s1)(this \<mapsto> tk\<lparr>tracked_objects_m :=
        insert_end (container_t s) (tracked_objects_m tk) a\<rparr>)"
      using 3 t1 by simp
  qed
  from 1 2 3 nin 4 5 6 show thesis by (rule that)
qed

lemmas evaluation_make =
  make_def trackable_copy_ctor_def trackable_move_ctor_def trackable_ctor_def
  trackable_forwarding_ctor_def tracker_ctor_def empty_world_def make_from_other_tracker_def

text \<open>
  C5 fails on the code when the argument of \<open>make\<close> is a trackable that is attached. In the
  example world the trackable at 1 is attached to the tracker at 10; \<open>make(*instance)\<close> on
  the tracker at 20 copy-constructs the new trackable at 5, which attaches it to the
  tracker at 10 with a call of \<open>did_attach\<close>, and then connects it to the tracker at 20:
  \<open>did_attach\<close> has been called before \<open>did_make\<close>, and the new trackable is in both
  containers. For \<open>make()\<close> without arguments the claim holds, by \<open>make_no_args\<close>.
\<close>

theorem make_of_attached_trackable:
  "is_attached example_world 10 (Some 1)
   \<and> \<not> isl (make test_type 20 5 [Trackable_lvalue 1] example_world)
   \<and> fst (projr (make test_type 20 5 [Trackable_lvalue 1] example_world)) = 5
   \<and> map notified (calls (snd (projr (make test_type 20 5 [Trackable_lvalue 1] example_world))))
        = [(Did_attach, 10, 5), (Did_make, 20, 5)]
   \<and> is_attached (snd (projr (make test_type 20 5 [Trackable_lvalue 1] example_world))) 20 (Some 5)
   \<and> tracked_objects (snd (projr (make test_type 20 5 [Trackable_lvalue 1] example_world))) 10
        = [1, 2, 5]
   \<and> tracked_objects (snd (projr (make test_type 20 5 [Trackable_lvalue 1] example_world))) 20
        = [3, 5]"
  by (simp add: evaluation evaluation_make)

text \<open>
  C1 fails on the code. The program \<open>make_from_other_tracker\<close> uses only constructors and
  \<open>make\<close>; it runs without a failed assertion, and in the world it ends in, the trackable
  at 2 is in the container of the tracker at 10 and in that of the tracker at 20, while its
  \<open>tracker_\<close> is the tracker at 20: the tracker at 10 holds a pointer to a trackable that
  is not attached to it.
\<close>

theorem make_from_other_tracker_membership:
  "\<not> isl make_from_other_tracker
   \<and> fst (projr make_from_other_tracker) = 2
   \<and> map notified (calls (snd (projr make_from_other_tracker)))
        = [(Did_make, 10, 1), (Did_attach, 10, 2), (Did_make, 20, 2)]
   \<and> tracked_objects (snd (projr make_from_other_tracker)) 10 = [1, 2]
   \<and> tracked_objects (snd (projr make_from_other_tracker)) 20 = [2]
   \<and> \<not> is_attached (snd (projr make_from_other_tracker)) 10 (Some 2)
   \<and> is_attached (snd (projr make_from_other_tracker)) 20 (Some 2)"
  by (simp add: evaluation evaluation_make)

lemma make_from_other_tracker_not_one_to_one:
  "\<not> one_to_one (snd (projr make_from_other_tracker))"
proof
  assume inv: "one_to_one (snd (projr make_from_other_tracker))"
  have "trks (snd (projr make_from_other_tracker)) 10 = Some \<lparr>tracked_objects_m = [1, 2]\<rparr>"
    by (simp add: evaluation evaluation_make)
  from one_to_one_member [OF inv this, of 2]
  have "is_attached (snd (projr make_from_other_tracker)) 10 (Some 2)"
    by (auto simp: is_attached_def)
  then show False by (simp add: evaluation evaluation_make)
qed

text \<open>
  C9 fails on the code. The payload type of the tests accepts the argument list \<open>(42)\<close>,
  but the forwarding constructor is never a candidate: its template parameter \<open>Arg\<close>
  occurs in no function parameter and has no default. A trackable cannot be constructed
  from \<open>(42)\<close>, neither directly nor through \<open>make\<close>; by \<open>construct_forwarding\<close> the same
  holds for every argument list other than the empty one and a single trackable.
\<close>

theorem forwarding_constructor_never_selected:
  "test_type [Other 42] = Some 42
   \<and> \<not> forwarding_ctor_viable
   \<and> construct test_type 5 [Other 42] example_world = Inl No_matching_constructor
   \<and> make test_type 10 5 [Other 42] example_world = Inl No_matching_constructor"
  by (simp add: forwarding_ctor_not_viable make_def)

section \<open>Every operation keeps membership one-to-one, apart from make of an attached trackable\<close>

lemma static_dispatch_preserves: "one_to_one (static_dispatch h t a s) = one_to_one s"
  by (rule one_to_one_cong) (simp_all add: static_dispatch_def)

lemma trackable_detach_preserves:
  assumes inv: "one_to_one s" and r: "trackable_detach a s = Inr (b, s')"
  shows "one_to_one s' \<and> (\<exists>ob. objs s a = Some ob \<and> objs s' = (objs s)(a \<mapsto> ob\<lparr>tracker_m := None\<rparr>))"
proof -
  from r obtain ob where ob: "objs s a = Some ob"
    by (auto simp: trackable_detach_def split: option.splits)
  from trackable_detach_any [OF inv ob] r ob show ?thesis by auto
qed

lemma detach_preserves:
  assumes inv: "one_to_one s" and r: "detach t p s = Inr (b, s')"
  shows "one_to_one s'"
proof (cases "is_detached s t p")
  case True
  from detach_detached [OF True] r inv show ?thesis by simp
next
  case False
  then obtain a ob where p: "p = Some a" and ob: "objs s a = Some ob" "tracker_m ob = Some t"
    by (auto simp: is_detached_def is_attached_def split: option.splits)
  from detach_attached [OF inv ob] r p show ?thesis by auto
qed

lemma connect_preserves:
  assumes inv: "one_to_one s" and ob: "objs s a = Some ob" and det: "tracker_m ob = None"
    and r: "connect t (Some a) s = Inr s'"
  shows "one_to_one s'"
proof -
  from r ob obtain tk where tk: "trks s t = Some tk"
    by (auto simp: connect_def split: option.splits if_splits)
  from det have "tracker_m ob \<noteq> Some t" by simp
  from connect_ok [OF ob tk this] r obtain
    "objs s' = (objs s)(a \<mapsto> ob\<lparr>tracker_m := Some t\<rparr>)"
    "trks s' = (trks s)(t \<mapsto> tk\<lparr>tracked_objects_m :=
        insert_end (container_t s) (tracked_objects_m tk) a\<rparr>)" by auto
  with inv ob tk det show ?thesis by (rule one_to_one_link)
qed

lemma attach_preserves:
  assumes inv: "one_to_one s" and r: "attach t p s = Inr (b, s')"
  shows "one_to_one s'"
proof (cases "p = None \<or> is_attached s t p")
  case True
  with r have "s' = s" by (auto simp: attach_def split: option.splits)
  with inv show ?thesis by simp
next
  case False
  then obtain a where p: "p = Some a" and na: "\<not> is_attached s t (Some a)" by auto
  from r p na obtain b1 s1 s2 where
    d: "trackable_detach a s = Inr (b1, s1)" and c: "connect t (Some a) s1 = Inr s2"
    and s': "s' = static_dispatch Did_attach t a s2"
    by (auto simp: attach_def split: sum.splits)
  from trackable_detach_preserves [OF inv d] obtain ob where
    i1: "one_to_one s1" and o1: "objs s1 a = Some (ob\<lparr>tracker_m := None\<rparr>)" by auto
  have "one_to_one s2" using i1 o1 _ c by (rule connect_preserves) simp
  then show ?thesis by (simp add: s' static_dispatch_preserves)
qed

lemma detach_all_preserves:
  assumes inv: "one_to_one s" and r: "detach_all t s = Inr s'"
  shows "one_to_one s'"
proof -
  from r obtain tk where tk: "trks s t = Some tk"
    by (auto simp: detach_all_def split: option.splits)
  from detach_all_ok [OF inv tk] r show ?thesis by auto
qed

lemma tracker_ctor_preserves:
  assumes inv: "one_to_one s" and r: "tracker_ctor t s = Inr s'"
  shows "one_to_one s'"
proof -
  from r have fresh: "trks s t = None"
    and s': "s' = s\<lparr>trks := (trks s)(t \<mapsto> \<lparr>tracked_objects_m = []\<rparr>)\<rparr>"
    by (auto simp: tracker_ctor_def split: if_splits)
  show ?thesis
    unfolding one_to_one_iff
  proof (rule conjI; intro allI impI)
    fix u uk assume "trks s' u = Some uk"
    then have "(u = t \<and> tracked_objects_m uk = []) \<or> trks s u = Some uk"
      by (auto simp: s' split: if_splits)
    then show "distinct (tracked_objects_m uk) \<and>
        (\<forall>b \<in> set (tracked_objects_m uk). \<exists>ob. objs s' b = Some ob \<and> tracker_m ob = Some u)"
      using one_to_one_distinct [OF inv] one_to_one_member [OF inv] by (auto simp: s')
  next
    fix b ob u assume "objs s' b = Some ob" "tracker_m ob = Some u"
    then have "objs s b = Some ob" "tracker_m ob = Some u" by (simp_all add: s')
    from one_to_one_back [OF inv this] fresh
    show "\<exists>tk. trks s' u = Some tk \<and> b \<in> set (tracked_objects_m tk)"
      by (auto simp: s')
  qed
qed

lemma tracker_dtor_preserves:
  assumes inv: "one_to_one s" and r: "tracker_dtor t s = Inr s'"
  shows "one_to_one s'"
proof -
  from r obtain s1 where d: "detach_all t s = Inr s1"
    and s': "s' = s1\<lparr>trks := (trks s1)(t := None)\<rparr>"
    by (auto simp: tracker_dtor_def split: sum.splits)
  from d obtain tk where tk: "trks s t = Some tk"
    by (auto simp: detach_all_def split: option.splits)
  from detach_all_ok [OF inv tk] d have i1: "one_to_one s1"
    and t1: "trks s1 = (trks s)(t \<mapsto> tk\<lparr>tracked_objects_m := []\<rparr>)" by auto
  show ?thesis
    unfolding one_to_one_iff
  proof (rule conjI; intro allI impI)
    fix u uk assume "trks s' u = Some uk"
    then have "trks s1 u = Some uk" by (auto simp: s' split: if_splits)
    then show "distinct (tracked_objects_m uk) \<and>
        (\<forall>b \<in> set (tracked_objects_m uk). \<exists>ob. objs s' b = Some ob \<and> tracker_m ob = Some u)"
      using one_to_one_distinct [OF i1] one_to_one_member [OF i1] by (auto simp: s')
  next
    fix b ob u assume "objs s' b = Some ob" "tracker_m ob = Some u"
    then have "objs s1 b = Some ob" "tracker_m ob = Some u" by (simp_all add: s')
    from one_to_one_back [OF i1 this] obtain uk
      where uk: "trks s1 u = Some uk" "b \<in> set (tracked_objects_m uk)" by blast
    with t1 have "u \<noteq> t" by auto
    with uk show "\<exists>tk. trks s' u = Some tk \<and> b \<in> set (tracked_objects_m tk)"
      by (auto simp: s')
  qed
qed

lemma tracker_move_ctor_preserves:
  assumes inv: "one_to_one s" and r: "tracker_move_ctor this rhs s = Inr s'"
  shows "one_to_one s'"
proof -
  from r obtain rk where fresh: "this \<notin> dom (trks s)" and rk: "trks s rhs = Some rk"
    by (auto simp: tracker_move_ctor_def split: if_splits option.splits)
  from tracker_move_ctor_ok [OF inv rk fresh] r show ?thesis by auto
qed

lemma tracker_move_assign_preserves:
  assumes inv: "one_to_one s" and r: "tracker_move_assign this rhs s = Inr s'"
  shows "one_to_one s'"
proof -
  from r obtain s1 where ne: "this \<noteq> rhs" and d: "detach_all this s = Inr s1"
    by (auto simp: tracker_move_assign_def split: if_splits sum.splits)
  from d obtain l where l: "trks s this = Some l"
    by (auto simp: detach_all_def split: option.splits)
  from detach_all_ok [OF inv l] d
  have t1: "trks s1 = (trks s)(this \<mapsto> l\<lparr>tracked_objects_m := []\<rparr>)" by auto
  from r ne d obtain rk where "trks s1 rhs = Some rk"
    by (auto simp: tracker_move_assign_def split: option.splits)
  with t1 ne have rk: "trks s rhs = Some rk" by auto
  from tracker_move_assign_ok [OF inv rk l ne] r show ?thesis by auto
qed


lemma trackable_ctor_preserves:
  assumes inv: "one_to_one s" and r: "trackable_ctor a v s = Inr s'"
  shows "one_to_one s' \<and> objs s' a = Some \<lparr>payload = v, tracker_m = None\<rparr>"
proof -
  from r have fresh: "a \<notin> dom (objs s)"
    and s': "s' = s\<lparr>objs := (objs s)(a \<mapsto> \<lparr>payload = v, tracker_m = None\<rparr>)\<rparr>"
    by (auto simp: trackable_ctor_def split: if_splits)
  have "one_to_one s'" using inv fresh by (rule one_to_one_new_object) (simp_all add: s')
  then show ?thesis by (simp add: s')
qed

lemma trackable_copy_ctor_preserves:
  assumes inv: "one_to_one s" and r: "trackable_copy_ctor this rhs s = Inr s'"
  shows "one_to_one s'"
proof -
  from r obtain rr where fresh: "this \<notin> dom (objs s)" and rr: "objs s rhs = Some rr"
    by (auto simp: trackable_copy_ctor_def split: if_splits option.splits)
  define s1 where "s1 = s\<lparr>objs := (objs s)(this \<mapsto> \<lparr>payload = payload rr, tracker_m = None\<rparr>)\<rparr>"
  have inv1: "one_to_one s1" using inv fresh by (rule one_to_one_new_object) (simp_all add: s1_def)
  from r fresh rr have "s' = s1 \<or> (\<exists>t b. attach t (Some this) s1 = Inr (b, s'))"
    unfolding s1_def
    by (auto simp: trackable_copy_ctor_def Let_def split: option.splits sum.splits)
  with inv1 show ?thesis using attach_preserves by blast
qed

lemma trackable_copy_assign_preserves:
  assumes inv: "one_to_one s" and r: "trackable_copy_assign this rhs s = Inr s'"
  shows "one_to_one s'"
proof -
  from r obtain l rr where l: "objs s this = Some l" and rr: "objs s rhs = Some rr"
    by (auto simp: trackable_copy_assign_def split: option.splits)
  define s1 where "s1 = s\<lparr>objs := (objs s)(this \<mapsto> l\<lparr>payload := payload rr\<rparr>)\<rparr>"
  have inv1: "one_to_one s1" using inv l by (rule one_to_one_payload) (simp_all add: s1_def)
  from r l rr have "s' = s \<or> s' = s1 \<or>
      (\<exists>b s2. trackable_detach this s1 = Inr (b, s2) \<and>
         (s' = s2 \<or> (\<exists>t b'. attach t (Some this) s2 = Inr (b', s'))))"
    unfolding s1_def
    by (auto simp: trackable_copy_assign_def Let_def split: option.splits sum.splits if_splits)
  with inv inv1 show ?thesis
    using trackable_detach_preserves attach_preserves by blast
qed

lemma transfer_preserves:
  assumes inv: "one_to_one s1"
    and r: "(case trackable_detach rhs s1 of Inl e \<Rightarrow> Inl e
          | Inr (_, s2) \<Rightarrow>
              (case tracker of None \<Rightarrow> Inr s2
               | Some t \<Rightarrow> (case attach t (Some this) s2 of Inl e \<Rightarrow> Inl e
                            | Inr (_, s3) \<Rightarrow> Inr s3))) = Inr s'"
  shows "one_to_one s'"
proof -
  from r have "\<exists>b s2. trackable_detach rhs s1 = Inr (b, s2) \<and>
         (s' = s2 \<or> (\<exists>t b'. attach t (Some this) s2 = Inr (b', s')))"
    by (auto split: option.splits sum.splits)
  with inv show ?thesis
    using trackable_detach_preserves attach_preserves by blast
qed

lemma trackable_move_ctor_preserves:
  assumes inv: "one_to_one s" and r: "trackable_move_ctor this rhs s = Inr s'"
  shows "one_to_one s'"
proof -
  from r obtain rr where fresh: "this \<notin> dom (objs s)" and rr: "objs s rhs = Some rr"
    by (auto simp: trackable_move_ctor_def split: if_splits option.splits)
  define s1 where "s1 = s\<lparr>objs := (objs s)(this \<mapsto> \<lparr>payload = payload rr, tracker_m = None\<rparr>)\<rparr>"
  have inv1: "one_to_one s1" using inv fresh by (rule one_to_one_new_object) (simp_all add: s1_def)
  from r trackable_move_ctor_eq [OF fresh rr, folded s1_def]
  show ?thesis using transfer_preserves [OF inv1] by simp
qed

lemma trackable_move_assign_preserves:
  assumes inv: "one_to_one s" and r: "trackable_move_assign this rhs s = Inr s'"
  shows "one_to_one s'"
proof -
  from r obtain l rr where ne: "this \<noteq> rhs" and l: "objs s this = Some l"
    and rr: "objs s rhs = Some rr"
    by (auto simp: trackable_move_assign_def split: if_splits option.splits)
  define s1 where "s1 = s\<lparr>objs := (objs s)(this \<mapsto> l\<lparr>payload := payload rr\<rparr>)\<rparr>"
  have inv1: "one_to_one s1" using inv l by (rule one_to_one_payload) (simp_all add: s1_def)
  from r ne l rr obtain b s2 r2 where d: "trackable_detach this s1 = Inr (b, s2)"
    and r2: "objs s2 rhs = Some r2"
    and rest: "(case trackable_detach rhs s2 of Inl e \<Rightarrow> Inl e
          | Inr (_, s3) \<Rightarrow>
              (case tracker_m r2 of None \<Rightarrow> Inr s3
               | Some t \<Rightarrow> (case attach t (Some this) s3 of Inl e \<Rightarrow> Inl e
                            | Inr (_, s4) \<Rightarrow> Inr s4))) = Inr s'"
    unfolding s1_def
    by (auto simp: trackable_move_assign_def Let_def split: option.splits sum.splits)
  from trackable_detach_preserves [OF inv1 d] have "one_to_one s2" by simp
  then show ?thesis using rest by (rule transfer_preserves)
qed

lemma trackable_dtor_preserves:
  assumes inv: "one_to_one s" and r: "trackable_dtor a s = Inr s'"
  shows "one_to_one s'"
proof -
  from r obtain b s1 where d: "trackable_detach a s = Inr (b, s1)"
    and s': "s' = s1\<lparr>objs := (objs s1)(a := None)\<rparr>"
    by (auto simp: trackable_dtor_def split: sum.splits)
  from trackable_detach_preserves [OF inv d] obtain ob where
    i1: "one_to_one s1" and o1: "objs s1 a = Some (ob\<lparr>tracker_m := None\<rparr>)" by auto
  from i1 show ?thesis
  proof (rule one_to_one_links)
    show "trks s' = trks s1" by (simp add: s')
    show "\<exists>ob. objs s1 b = Some ob \<and> tracker_m ob = Some t"
      if "objs s' b = Some ob'" "tracker_m ob' = Some t" for b ob' t
      using that by (auto simp: s' split: if_splits)
    show "\<exists>ob'. objs s' b = Some ob' \<and> tracker_m ob' = Some t"
      if "objs s1 b = Some ob" "tracker_m ob = Some t" for b ob t
      using that o1 by (auto simp: s')
  qed
qed

lemma construct_preserves:
  assumes inv: "one_to_one s" and r: "construct T this args s = Inr s'"
  shows "one_to_one s'"
proof (cases "(T, this, args, s)" rule: construct.cases)
  case (1 T' this' s0)
  with r obtain v where "trackable_ctor this v s = Inr s'"
    by (auto split: option.splits)
  from trackable_ctor_preserves [OF inv this] show ?thesis by simp
next
  case (2 T' this' rhs s0)
  with r have "trackable_copy_ctor this rhs s = Inr s'" by simp
  with inv show ?thesis by (rule trackable_copy_ctor_preserves)
next
  case (3 T' this' rhs s0)
  with r have "trackable_move_ctor this rhs s = Inr s'" by simp
  with inv show ?thesis by (rule trackable_move_ctor_preserves)
qed (use r in \<open>simp_all add: forwarding_ctor_not_viable\<close>)

lemma construct_detached:
  assumes inv: "one_to_one s" and safe: "\<not> attached_argument s args"
    and r: "construct T this args s = Inr s'"
  shows "\<exists>d. objs s' this = Some d \<and> tracker_m d = None"
proof (cases "(T, this, args, s)" rule: construct.cases)
  case (1 T' this' s0)
  with r obtain v where "trackable_ctor this v s = Inr s'"
    by (auto split: option.splits)
  from trackable_ctor_preserves [OF inv this] show ?thesis by simp
next
  case (2 T' this' rhs s0)
  with r have c: "trackable_copy_ctor this rhs s = Inr s'" by simp
  then obtain rr where fresh: "this \<notin> dom (objs s)" and rr: "objs s rhs = Some rr"
    by (auto simp: trackable_copy_ctor_def split: if_splits option.splits)
  with safe 2 have "tracker_m rr = None"
    by (simp add: trackable_is_attached_def my_tracker_def)
  with c fresh rr show ?thesis by (auto simp: trackable_copy_ctor_def Let_def)
next
  case (3 T' this' rhs s0)
  with r have c: "trackable_move_ctor this rhs s = Inr s'" by simp
  then obtain rr where fresh: "this \<notin> dom (objs s)" and rr: "objs s rhs = Some rr"
    by (auto simp: trackable_move_ctor_def split: if_splits option.splits)
  with safe 3 have det: "tracker_m rr = None"
    by (simp add: trackable_is_attached_def my_tracker_def)
  define s1 where "s1 = s\<lparr>objs := (objs s)(this \<mapsto> \<lparr>payload = payload rr, tracker_m = None\<rparr>)\<rparr>"
  from fresh rr have "this \<noteq> rhs" by auto
  with rr have r1: "objs s1 rhs = Some rr" by (simp add: s1_def)
  from transfer_detached [OF r1 det, of this] trackable_move_ctor_eq [OF fresh rr, folded s1_def] c
  have "s' = s1" by simp
  then show ?thesis by (simp add: s1_def)
qed (use r in \<open>simp_all add: forwarding_ctor_not_viable\<close>)

lemma make_preserves:
  assumes inv: "one_to_one s" and safe: "\<not> attached_argument s args"
    and r: "make T this a args s = Inr (h, s')"
  shows "one_to_one s'"
proof -
  from r obtain s1 s2 where c: "construct T a args s = Inr s1"
    and k: "connect this (Some a) s1 = Inr s2" and s': "s' = static_dispatch Did_make this a s2"
    by (auto simp: make_def split: sum.splits)
  from construct_preserves [OF inv c] have i1: "one_to_one s1" .
  from construct_detached [OF inv safe c] obtain d
    where d: "objs s1 a = Some d" "tracker_m d = None" by blast
  from i1 d k have "one_to_one s2" by (rule connect_preserves)
  then show ?thesis by (simp add: s' static_dispatch_preserves)
qed

lemma one_to_one_start:
  "one_to_one \<lparr>objs = Map.empty, trks = Map.empty, container_t = k, calls = []\<rparr>"
  by (simp add: one_to_one_def)

text \<open>
  Membership is one-to-one in every world reached through the public operations, as long
  as \<open>make\<close> is not given an attached trackable as its argument.
\<close>

lemma reachable_one_to_one:
  assumes "reachable T s"
  shows "one_to_one s"
  using assms
proof (induction rule: reachable.induct)
  case (start k)
  show ?case by (rule one_to_one_start)
next
  case (new_tracker s this s')
  then show ?case using tracker_ctor_preserves by blast
next
  case (move_tracker s this rhs s')
  then show ?case using tracker_move_ctor_preserves by blast
next
  case (assign_tracker s this rhs s')
  then show ?case using tracker_move_assign_preserves by blast
next
  case (delete_tracker s this s')
  then show ?case using tracker_dtor_preserves by blast
next
  case (make s args this a h s')
  then show ?case using make_preserves by blast
next
  case (attach s this p b s')
  then show ?case using attach_preserves by blast
next
  case (detach s this p b s')
  then show ?case using detach_preserves by blast
next
  case (detach_all s this s')
  then show ?case using detach_all_preserves by blast
next
  case (new_trackable s a args s')
  then show ?case using construct_preserves by blast
next
  case (copy_assign s a rhs s')
  then show ?case using trackable_copy_assign_preserves by blast
next
  case (move_assign s a rhs s')
  then show ?case using trackable_move_assign_preserves by blast
next
  case (delete_trackable s a s')
  then show ?case using trackable_dtor_preserves by blast
next
  case (trackable_detach s a b s')
  then show ?case using trackable_detach_preserves by blast
qed

section \<open>Runs that go on after make of an attached trackable\<close>

text \<open>
  The program \<open>attach_after_make\<close> runs without a failed assertion and ends in a world where
  the tracker at 10 lists the trackable at 2 twice.
\<close>

lemmas evaluation_after_make =
  attach_after_make_def detach_all_after_make_def detach_after_make_def
  cross_attach_after_make_def detach_all_def

lemma attach_after_make_world:
  "\<not> isl attach_after_make
   \<and> fst (projr attach_after_make)
   \<and> tracked_objects (snd (projr attach_after_make)) 10 = [1, 2, 2]
   \<and> tracked_objects (snd (projr attach_after_make)) 20 = []
   \<and> is_attached (snd (projr attach_after_make)) 10 (Some 1)
   \<and> is_attached (snd (projr attach_after_make)) 10 (Some 2)
   \<and> map notified (calls (snd (projr attach_after_make)))
        = [(Did_make, 10, 1), (Did_attach, 10, 2), (Did_make, 20, 2),
           (Did_detach, 20, 2), (Did_attach, 10, 2)]"
  by (simp add: evaluation evaluation_make evaluation_after_make)

text \<open>
  C2 fails on the code. After \<open>make(*instance)\<close> on the second tracker and \<open>attach\<close> of
  the new trackable on the first, the container of the tracker at 10 holds the trackable
  at 2 twice, and the tracker has the two members 1 and 2. \<open>detach_all\<close> on it calls
  \<open>did_detach\<close> three times, twice for the trackable at 2, and not once for each member.
  In a world where membership is one-to-one the calls are one for each member, by
  \<open>detach_all_contract\<close>.
\<close>

theorem detach_all_notifies_member_twice:
  "\<not> isl attach_after_make
   \<and> tracked_objects (snd (projr attach_after_make)) 10 = [1, 2, 2]
   \<and> is_attached (snd (projr attach_after_make)) 10 (Some 1)
   \<and> is_attached (snd (projr attach_after_make)) 10 (Some 2)
   \<and> length (calls (snd (projr attach_after_make))) = 5
   \<and> \<not> isl detach_all_after_make
   \<and> drop 5 (map notified (calls (projr detach_all_after_make)))
        = [(Did_detach, 10, 1), (Did_detach, 10, 2), (Did_detach, 10, 2)]
   \<and> tracked_objects (projr detach_all_after_make) 10 = []"
  by (simp add: evaluation evaluation_make evaluation_after_make)

text \<open>
  C4 fails on the code. In the same world, \<open>detach\<close> of the trackable at 2 on the tracker
  at 10 returns \<open>true\<close>, calls \<open>did_detach\<close> once and sets \<open>tracker_\<close> to null, but erases
  only the first of the two positions: the container of the tracker still holds the
  trackable at 2. In a world where membership is one-to-one the trackable is no longer in
  the container, by \<open>detach_contract\<close>.
\<close>

theorem detach_leaves_member_listed:
  "\<not> isl attach_after_make
   \<and> tracked_objects (snd (projr attach_after_make)) 10 = [1, 2, 2]
   \<and> is_attached (snd (projr attach_after_make)) 10 (Some 2)
   \<and> \<not> isl detach_after_make
   \<and> fst (projr detach_after_make)
   \<and> tracked_objects (snd (projr detach_after_make)) 10 = [1, 2]
   \<and> \<not> is_attached (snd (projr detach_after_make)) 10 (Some 2)
   \<and> drop 5 (map notified (calls (snd (projr detach_after_make)))) = [(Did_detach, 10, 2)]"
  by (simp add: evaluation evaluation_make evaluation_after_make)

text \<open>
  C3 fails on the code. In the same world the trackable at 2 is attached to the tracker at
  10; \<open>attach\<close> of it on the tracker at 20 returns \<open>true\<close> and calls \<open>did_detach\<close> of the
  tracker at 10 and then \<open>did_attach\<close> of the tracker at 20, but the container of the
  tracker at 10 still holds the trackable: it is not removed from there, and it is not
  listed by the tracker at 20 only. In a world where membership is one-to-one it is, by
  \<open>attach_contract\<close>.
\<close>

theorem attach_leaves_member_listed_elsewhere:
  "\<not> isl attach_after_make
   \<and> tracked_objects (snd (projr attach_after_make)) 10 = [1, 2, 2]
   \<and> is_attached (snd (projr attach_after_make)) 10 (Some 2)
   \<and> \<not> isl cross_attach_after_make
   \<and> fst (projr cross_attach_after_make)
   \<and> drop 5 (map notified (calls (snd (projr cross_attach_after_make))))
        = [(Did_detach, 10, 2), (Did_attach, 20, 2)]
   \<and> is_attached (snd (projr cross_attach_after_make)) 20 (Some 2)
   \<and> tracked_objects (snd (projr cross_attach_after_make)) 20 = [2]
   \<and> tracked_objects (snd (projr cross_attach_after_make)) 10 = [1, 2]"
  by (simp add: evaluation evaluation_make evaluation_after_make)

end
